theory Spec2Isabelle
  imports Main "HOL-Library.Word"
begin

unbundle bit_operations_syntax

section \<open>Machine words\<close>

type_synonym u8 = "8 word"
type_synonym u32 = "32 word"

section \<open>The MMC over SPI driver (os/hal/src/mmc_spi.c)\<close>

subsection \<open>Compile-time settings and data\<close>

text \<open>
  The settings of mmc_spi.h, chconf.h and chvt.h that mmc_spi.c reads. The headers are
  not part of the sources at hand, so each constant is a field of the configuration and
  every result below holds for all values. \<^verbatim>\<open>MMC_POLLING_DELAY_ST\<close> stands for the
  expression \<^verbatim>\<open>MS2ST(MMC_POLLING_DELAY)\<close>.
\<close>

record hal_config =
  CH_DBG_ENABLE_CHECKS :: bool
  CH_DBG_ENABLE_ASSERTS :: bool
  MMC_POLLING_INTERVAL :: nat
  MMC_POLLING_DELAY_ST :: nat
  MMC_WAIT_DATA :: int
  MMC_SECTOR_SIZE :: nat

datatype mmcstate_t =
  MMC_UNINIT | MMC_STOP | MMC_WAIT | MMC_INSERTED | MMC_READY | MMC_READING | MMC_WRITING

datatype error = DbgPanic string

datatype evsrc = inserted_event | removed_event

text \<open>
  Kernel services called by the driver, as they appear in the call log; also the call of
  a timer callback and the prologue and epilogue of an interrupt handler.
\<close>

datatype kcall =
  EvtBroadcastI evsrc | VTSetI nat | VTResetI | SysTimerHandlerI | VTCallback
  | IRQ_PROLOGUE | IRQ_EPILOGUE

text \<open>
  The driver object together with the state of its collaborators: the System Lock, the
  log of kernel calls (each with the lock state at the call), and the SPI bus. The bytes
  the card answers are the stream \<^verbatim>\<open>spi_rx\<close>; \<^verbatim>\<open>spi_pos\<close> counts the bytes
  exchanged so far. The field \<^verbatim>\<open>vt\<close> is the driver's virtual timer: \<^verbatim>\<open>Some d\<close>
  when armed with delay \<^verbatim>\<open>d\<close>.
\<close>

record sys =
  state :: mmcstate_t
  config :: "unit option"
  cnt :: nat
  vt :: "nat option"
  lock :: bool
  klog :: "(kcall \<times> bool) list"
  spi_rx :: "nat \<Rightarrow> u8"
  spi_pos :: nat
  spi_selected :: bool
  spi_running :: bool

subsection \<open>Kernel and SPI services\<close>

definition chSysLock :: "sys \<Rightarrow> sys" where
  "chSysLock s = s\<lparr>lock := True\<rparr>"

definition chSysUnlock :: "sys \<Rightarrow> sys" where
  "chSysUnlock s = s\<lparr>lock := False\<rparr>"

definition chSysLockFromIsr :: "sys \<Rightarrow> sys" where
  "chSysLockFromIsr s = s\<lparr>lock := True\<rparr>"

definition chSysUnlockFromIsr :: "sys \<Rightarrow> sys" where
  "chSysUnlockFromIsr s = s\<lparr>lock := False\<rparr>"

definition chEvtBroadcastI :: "evsrc \<Rightarrow> sys \<Rightarrow> sys" where
  "chEvtBroadcastI e s = s\<lparr>klog := klog s @ [(EvtBroadcastI e, lock s)]\<rparr>"

definition chVTSetI :: "nat \<Rightarrow> sys \<Rightarrow> sys" where
  "chVTSetI d s = s\<lparr>vt := Some d, klog := klog s @ [(VTSetI d, lock s)]\<rparr>"

definition chVTResetI :: "sys \<Rightarrow> sys" where
  "chVTResetI s = s\<lparr>vt := None, klog := klog s @ [(VTResetI, lock s)]\<rparr>"

definition spiSelect :: "sys \<Rightarrow> sys" where
  "spiSelect s = s\<lparr>spi_selected := True\<rparr>"

definition spiUnselect :: "sys \<Rightarrow> sys" where
  "spiUnselect s = s\<lparr>spi_selected := False\<rparr>"

definition spiStop :: "sys \<Rightarrow> sys" where
  "spiStop s = s\<lparr>spi_running := False\<rparr>"

definition spiReceive :: "nat \<Rightarrow> sys \<Rightarrow> u8 list \<times> sys" where
  "spiReceive n s = (map (spi_rx s) [spi_pos s ..< spi_pos s + n], s\<lparr>spi_pos := spi_pos s + n\<rparr>)"

definition spiIgnore :: "nat \<Rightarrow> sys \<Rightarrow> sys" where
  "spiIgnore n s = s\<lparr>spi_pos := spi_pos s + n\<rparr>"

subsection \<open>Driver local functions\<close>

text \<open>The insertion monitor timer callback; \<^verbatim>\<open>ins\<close> is what \<^verbatim>\<open>is_inserted()\<close> answers.\<close>

definition tmrfunc :: "hal_config \<Rightarrow> bool \<Rightarrow> sys \<Rightarrow> sys" where
  "tmrfunc cfg ins s0 =
     (let s1 = chSysLockFromIsr s0;
          s2 = (if cnt s1 > 0 then
                  (if ins then
                     (let s' = s1\<lparr>cnt := cnt s1 - 1\<rparr> in
                      if cnt s' = 0
                      then chEvtBroadcastI inserted_event (s'\<lparr>state := MMC_INSERTED\<rparr>)
                      else s')
                   else s1\<lparr>cnt := MMC_POLLING_INTERVAL cfg\<rparr>)
                else
                  (if \<not> ins
                   then chEvtBroadcastI removed_event
                          (s1\<lparr>state := MMC_WAIT, cnt := MMC_POLLING_INTERVAL cfg\<rparr>)
                   else s1));
          s3 = chVTSetI (MMC_POLLING_DELAY_ST cfg) s2
      in chSysUnlockFromIsr s3)"

text \<open>
  \<^verbatim>\<open>recvr1\<close>: up to nine single-byte receptions; the first byte other than 0xFF is
  the answer, 0xFF after the ninth is the time-out.
\<close>

function recvr1_loop :: "nat \<Rightarrow> sys \<Rightarrow> u8 \<times> sys" where
  "recvr1_loop i s =
     (if i < 9 then
        (if hd (fst (spiReceive 1 s)) \<noteq> 0xFF
         then (hd (fst (spiReceive 1 s)), snd (spiReceive 1 s))
         else recvr1_loop (Suc i) (snd (spiReceive 1 s)))
      else (0xFF, s))"
  by pat_completeness auto
termination
  by (relation "measure (\<lambda>(i, s). 9 - i)") auto

declare recvr1_loop.simps [simp del]

definition recvr1 :: "sys \<Rightarrow> u8 \<times> sys" where
  "recvr1 s = recvr1_loop 0 s"

text \<open>
  \<^verbatim>\<open>sync\<close>: selects the card and receives until the card answers 0xFF. The loop has
  no bound in the source, so it is a partial function: \<^verbatim>\<open>None\<close> is a run that
  never leaves the loop.
\<close>

partial_function (option) sync_loop :: "sys \<Rightarrow> sys option" where
  "sync_loop s =
     (if hd (fst (spiReceive 1 s)) = 0xFF
      then Some (snd (spiReceive 1 s))
      else sync_loop (snd (spiReceive 1 s)))"

definition sync :: "sys \<Rightarrow> sys option" where
  "sync s = (case sync_loop (spiSelect s) of None \<Rightarrow> None | Some s' \<Rightarrow> Some (spiUnselect s'))"

subsection \<open>Driver exported functions\<close>

definition mmcStart :: "hal_config \<Rightarrow> unit option \<Rightarrow> sys \<Rightarrow> error + sys" where
  "mmcStart cfg cfgp s =
     (if CH_DBG_ENABLE_CHECKS cfg \<and> cfgp \<noteq> None then Inl (DbgPanic ''mmcStart'')
      else
        (let s1 = chSysLock s in
         if CH_DBG_ENABLE_ASSERTS cfg \<and> state s1 \<noteq> MMC_STOP
         then Inl (DbgPanic ''mmcStart(), #1'')
         else
           (let s2 = s1\<lparr>config := cfgp\<rparr>;
                s3 = s2\<lparr>state := MMC_WAIT\<rparr>;
                s4 = s3\<lparr>cnt := MMC_POLLING_INTERVAL cfg\<rparr>;
                s5 = chVTSetI (MMC_POLLING_DELAY_ST cfg) s4
            in Inr (chSysUnlock s5))))"

definition mmcStop :: "hal_config \<Rightarrow> sys \<Rightarrow> error + sys" where
  "mmcStop cfg s =
     (let s1 = chSysLock s in
      if CH_DBG_ENABLE_ASSERTS cfg \<and>
         \<not> (state s1 \<noteq> MMC_UNINIT \<and> state s1 \<noteq> MMC_READING \<and> state s1 \<noteq> MMC_WRITING)
      then Inl (DbgPanic ''mmcStop(), #1'')
      else
        (let s2 = (if state s1 \<noteq> MMC_STOP
                   then chVTResetI (s1\<lparr>state := MMC_STOP\<rparr>)
                   else s1);
             s3 = chSysUnlock s2
         in Inr (spiStop s3)))"

text \<open>
  \<^verbatim>\<open>mmcDisconnect\<close>. The switch of the source has no break statement, so control
  entering at one label runs through all the labels below it. Each label is a function
  on the pair of the local \<^verbatim>\<open>status\<close> and the system state; a label ends by calling
  the next one. \<^verbatim>\<open>status\<close> is not initialised in C: its initial value is the
  argument \<^verbatim>\<open>status0\<close>.
\<close>

definition mmcDisconnect_default :: "bool \<times> sys \<Rightarrow> bool \<times> sys" where
  "mmcDisconnect_default p = (True, snd p)"

definition mmcDisconnect_INSERTED :: "bool \<times> sys \<Rightarrow> bool \<times> sys" where
  "mmcDisconnect_INSERTED p = mmcDisconnect_default (False, snd p)"

definition mmcDisconnect_READY :: "bool \<times> sys \<Rightarrow> (bool \<times> sys) option" where
  "mmcDisconnect_READY p =
     (case sync (snd p) of
        None \<Rightarrow> None
      | Some s1 \<Rightarrow>
          (let s2 = chSysLock s1;
               s3 = (if state s2 = MMC_READY then s2\<lparr>state := MMC_INSERTED\<rparr> else s2);
               s4 = chSysUnlock s3
           in Some (mmcDisconnect_INSERTED (fst p, s4))))"

definition mmcDisconnect :: "hal_config \<Rightarrow> bool \<Rightarrow> sys \<Rightarrow> (error + bool \<times> sys) option" where
  "mmcDisconnect cfg status0 s =
     (if CH_DBG_ENABLE_ASSERTS cfg \<and> \<not> (state s \<noteq> MMC_UNINIT \<and> state s \<noteq> MMC_STOP)
      then Some (Inl (DbgPanic ''mmcDisconnect(), #1''))
      else
        (case (case state s of
                 MMC_READY \<Rightarrow> mmcDisconnect_READY (status0, s)
               | MMC_INSERTED \<Rightarrow> Some (mmcDisconnect_INSERTED (status0, s))
               | _ \<Rightarrow> Some (mmcDisconnect_default (status0, s))) of
           None \<Rightarrow> None
         | Some (status, s') \<Rightarrow> Some (Inr (status, spiStop s'))))"

text \<open>
  \<^verbatim>\<open>mmcSequentialRead\<close>: the loop waits for the data token 0xFE for at most
  \<^verbatim>\<open>MMC_WAIT_DATA\<close> single-byte receptions into \<^verbatim>\<open>buffer[0]\<close>. A reception of
  \<^verbatim>\<open>n\<close> bytes overwrites the first \<^verbatim>\<open>n\<close> bytes of the buffer.
\<close>

definition store :: "u8 list \<Rightarrow> u8 list \<Rightarrow> u8 list" where
  "store bytes buffer = bytes @ drop (length bytes) buffer"

function seqread_loop :: "hal_config \<Rightarrow> int \<Rightarrow> u8 list \<Rightarrow> sys \<Rightarrow> bool \<times> u8 list \<times> sys" where
  "seqread_loop cfg i buffer s =
     (if i < MMC_WAIT_DATA cfg then
        (if hd (store (fst (spiReceive 1 s)) buffer) = 0xFE
         then (True,
               store (fst (spiReceive (MMC_SECTOR_SIZE cfg) (snd (spiReceive 1 s))))
                     (store (fst (spiReceive 1 s)) buffer),
               spiIgnore 2 (snd (spiReceive (MMC_SECTOR_SIZE cfg) (snd (spiReceive 1 s)))))
         else seqread_loop cfg (i + 1) (store (fst (spiReceive 1 s)) buffer)
                (snd (spiReceive 1 s)))
      else (False, buffer, s))"
  by pat_completeness auto
termination
  by (relation "measure (\<lambda>(cfg, i, buffer, s). nat (MMC_WAIT_DATA cfg - i))") auto

declare seqread_loop.simps [simp del]

definition mmcSequentialRead :: "hal_config \<Rightarrow> u8 list \<Rightarrow> sys \<Rightarrow> bool \<times> u8 list \<times> sys" where
  "mmcSequentialRead cfg buffer s =
     (let s1 = chSysLock s in
      if state s1 \<noteq> MMC_READING then (True, buffer, chSysUnlock s1)
      else
        (let s2 = chSysUnlock s1;
             r = seqread_loop cfg 0 buffer s2
         in if fst r then (False, fst (snd r), snd (snd r))
            else
              (let s3 = spiUnselect (snd (snd r));
                   s4 = chSysLock s3;
                   s5 = (if state s4 = MMC_READING then s4\<lparr>state := MMC_READY\<rparr> else s4)
               in (True, fst (snd r), chSysUnlock s5))))"

subsection \<open>Runs of the timer callback\<close>

text \<open>
  The callback run once for each observation of the insertion sensor, in order. The
  second definition is the invariant of these runs used in the proofs below.
\<close>

definition tmrfunc_runs :: "hal_config \<Rightarrow> bool list \<Rightarrow> sys \<Rightarrow> sys" where
  "tmrfunc_runs cfg obs s = foldl (\<lambda>t ob. tmrfunc cfg ob t) s obs"

definition debounce_inv :: "nat \<Rightarrow> bool list \<Rightarrow> sys \<Rightarrow> bool" where
  "debounce_inv N obs t =
     ((state t = MMC_WAIT \<and> cnt t \<le> N \<and> (0 < N \<longrightarrow> 0 < cnt t) \<and>
       take (N - cnt t) (rev obs) = replicate (N - cnt t) True) \<or>
      (state t = MMC_INSERTED \<and> cnt t = 0 \<and> 0 < N))"

subsection \<open>The system tick\<close>








section \<open>The Cortex-M ports (os/ports/GCC/ARMCMx/chcore_v7m.c, os/ports/IAR/ARMCMx/chcoreasm_v6m.s)\<close>

subsection \<open>Compile-time settings\<close>

text \<open>
  The settings and constants of chconf.h, chcore.h, chcore_v7m.h and nvic.h that the two
  files read. The headers are not among the sources, so each is a field of the
  configuration. \<^verbatim>\<open>EXTCTX_SIZE\<close> is \<^verbatim>\<open>sizeof(struct extctx)\<close>;
  \<^verbatim>\<open>port_switch_from_isr_entry\<close> and \<^verbatim>\<open>port_thread_start_entry\<close> are the addresses
  of the two routines.
\<close>

record port_config =
  CORTEX_USE_FPU :: bool
  CORTEX_SIMPLIFIED_PRIORITY :: bool
  CORTEX_ALTERNATE_SWITCH :: bool
  CH_DBG_SYSTEM_STATE_CHECK :: bool
  CORTEX_BASEPRI_KERNEL :: u32
  CORTEX_BASEPRI_DISABLED :: u32
  ICSR_RETTOBASE :: u32
  ICSR_PENDSVSET :: u32
  FPCCR_LSPACT :: u32
  EXTCTX_SIZE :: u32
  port_switch_from_isr_entry :: u32
  port_thread_start_entry :: u32

subsection \<open>Machine state\<close>

text \<open>
  Calls that leave the two files, and the exceptions the code raises, as they appear in
  the trace of a run.
\<close>

datatype event =
  Dbg_check_lock | Dbg_check_unlock | SchIsPreemptionRequired | SchDoReschedule
  | SVCall | PendSV | ThreadFunction u32 u32 | ThdExit u32

text \<open>
  The processor: the core registers r0 to r15 (13 is the stack pointer of the running
  thread, the process stack pointer PSP that handler code reads with \<^verbatim>\<open>mrs\<close>; 14 the
  link register; 15 the program counter), the FPU registers s0 to s31, the interrupt
  masks BASEPRI and PRIMASK, the words of memory by their byte address, and the three
  registers of the System Control Block the code touches. Each entry of the trace keeps
  BASEPRI and PRIMASK as they were at the call.
\<close>

record cpu =
  regs :: "nat \<Rightarrow> u32"
  sregs :: "nat \<Rightarrow> u32"
  xpsr :: u32
  basepri :: u32
  primask :: bool
  mem :: "u32 \<Rightarrow> u32"
  scb_icsr :: u32
  scb_fpccr :: u32
  scb_fpcar :: u32
  trace :: "(event \<times> u32 \<times> bool) list"

abbreviation SP :: nat where "SP \<equiv> 13"
abbreviation LR :: nat where "LR \<equiv> 14"
abbreviation PC :: nat where "PC \<equiv> 15"

text \<open>
  The code outside the two files: the scheduler's preemption check (its answer, read
  from memory), the reschedule (its effect on memory) and the thread functions (the
  value a function at an address returns for an argument, \<^verbatim>\<open>None\<close> when it never
  returns).
\<close>

record externals =
  chSchIsPreemptionRequired :: "(u32 \<Rightarrow> u32) \<Rightarrow> u32"
  chSchDoReschedule :: "(u32 \<Rightarrow> u32) \<Rightarrow> (u32 \<Rightarrow> u32)"
  thread_code :: "u32 \<Rightarrow> u32 \<Rightarrow> u32 option"

definition log :: "event \<Rightarrow> cpu \<Rightarrow> cpu" where
  "log e s = s\<lparr>trace := trace s @ [(e, basepri s, primask s)]\<rparr>"

subsection \<open>Instructions\<close>

text \<open>
  An instruction either falls through to the next one or leaves the sequence (a load of
  the program counter); a sequence stops at the first instruction that leaves.
\<close>

datatype 'a flow = Next 'a | Jump 'a

fun run :: "('a \<Rightarrow> 'a flow) list \<Rightarrow> 'a \<Rightarrow> 'a flow" where
  "run [] s = Next s"
| "run (i # is) s = (case i s of Next s' \<Rightarrow> run is s' | Jump s' \<Rightarrow> Jump s')"

definition unflow :: "'a flow \<Rightarrow> 'a" where
  "unflow f = (case f of Next s \<Rightarrow> s | Jump s \<Rightarrow> s)"

text \<open>Store and load multiple: ascending addresses, the first value at the lowest.\<close>

fun stm :: "u32 \<Rightarrow> u32 list \<Rightarrow> (u32 \<Rightarrow> u32) \<Rightarrow> (u32 \<Rightarrow> u32)" where
  "stm a [] m = m"
| "stm a (v # vs) m = stm (a + 4) vs (m(a := v))"

fun ldm :: "u32 \<Rightarrow> nat list \<Rightarrow> (u32 \<Rightarrow> u32) \<Rightarrow> (nat \<Rightarrow> u32) \<Rightarrow> (nat \<Rightarrow> u32)" where
  "ldm a [] m rf = rf"
| "ldm a (r # rs) m rf = ldm (a + 4) rs m (rf(r := m a))"

definition push :: "nat list \<Rightarrow> cpu \<Rightarrow> cpu flow" where
  "push rs s =
     (let sp' = regs s SP - 4 * of_nat (length rs)
      in Next (s\<lparr>mem := stm sp' (map (regs s) rs) (mem s), regs := (regs s)(SP := sp')\<rparr>))"

definition pop :: "nat list \<Rightarrow> cpu \<Rightarrow> cpu flow" where
  "pop rs s =
     (let rf = (ldm (regs s SP) rs (mem s) (regs s))(SP := regs s SP + 4 * of_nat (length rs))
      in (if PC \<in> set rs then Jump else Next) (s\<lparr>regs := rf\<rparr>))"

definition vpush :: "nat list \<Rightarrow> cpu \<Rightarrow> cpu flow" where
  "vpush rs s =
     (let sp' = regs s SP - 4 * of_nat (length rs)
      in Next (s\<lparr>mem := stm sp' (map (sregs s) rs) (mem s), regs := (regs s)(SP := sp')\<rparr>))"

definition vpop :: "nat list \<Rightarrow> cpu \<Rightarrow> cpu flow" where
  "vpop rs s =
     Next (s\<lparr>sregs := ldm (regs s SP) rs (mem s) (sregs s),
             regs := (regs s)(SP := regs s SP + 4 * of_nat (length rs))\<rparr>)"

definition str :: "nat \<Rightarrow> nat \<Rightarrow> u32 \<Rightarrow> cpu \<Rightarrow> cpu flow" where
  "str rt rn off s = Next (s\<lparr>mem := (mem s)(regs s rn + off := regs s rt)\<rparr>)"

definition ldr :: "nat \<Rightarrow> nat \<Rightarrow> u32 \<Rightarrow> cpu \<Rightarrow> cpu flow" where
  "ldr rt rn off s = Next (s\<lparr>regs := (regs s)(rt := mem s (regs s rn + off))\<rparr>)"

definition mov :: "nat \<Rightarrow> nat \<Rightarrow> cpu \<Rightarrow> cpu flow" where
  "mov rd rm s = Next (s\<lparr>regs := (regs s)(rd := regs s rm)\<rparr>)"

text \<open>
  Exception entry and return of the architecture: entry stacks r0 to r3, r12, lr, the
  return address and xPSR on the process stack; the return unstacks these eight words.
\<close>

definition exception_entry :: "cpu \<Rightarrow> cpu" where
  "exception_entry s =
     (let sp' = regs s SP - 32
      in s\<lparr>mem := stm sp' [regs s 0, regs s 1, regs s 2, regs s 3, regs s 12, regs s LR,
                             regs s PC, xpsr s] (mem s),
            regs := (regs s)(SP := sp')\<rparr>)"

definition exception_return :: "cpu \<Rightarrow> cpu" where
  "exception_return s =
     s\<lparr>regs := (ldm (regs s SP) [0, 1, 2, 3, 12, LR, PC] (mem s) (regs s))(SP := regs s SP + 32),
       xpsr := mem s (regs s SP + 28)\<rparr>"

subsection \<open>The System Lock of the port\<close>

text \<open>\<^verbatim>\<open>_port_lock\<close> and \<^verbatim>\<open>_port_unlock\<close> of chcore_v7m.c; the value goes through r3.\<close>

definition port_lock :: "port_config \<Rightarrow> cpu \<Rightarrow> cpu" where
  "port_lock cfg s =
     s\<lparr>regs := (regs s)(3 := CORTEX_BASEPRI_KERNEL cfg), basepri := CORTEX_BASEPRI_KERNEL cfg\<rparr>"

definition port_unlock :: "port_config \<Rightarrow> cpu \<Rightarrow> cpu" where
  "port_unlock cfg s =
     s\<lparr>regs := (regs s)(3 := CORTEX_BASEPRI_DISABLED cfg), basepri := CORTEX_BASEPRI_DISABLED cfg\<rparr>"

text \<open>
  Modelled from the spec: the macros \<^verbatim>\<open>port_lock()\<close>, \<^verbatim>\<open>port_unlock()\<close>,
  \<^verbatim>\<open>port_lock_from_isr()\<close> and \<^verbatim>\<open>port_unlock_from_isr()\<close> of chcore_v7m.h, which is not
  among the sources. Section 4.1 of the specification: acquiring masks the interrupts
  below the kernel's priority ceiling, the thread and the interrupt variant end in the
  same masking state. Here both variants are the functions \<^verbatim>\<open>_port_lock\<close> and
  \<^verbatim>\<open>_port_unlock\<close> above; in the simplified priority build, where chcore_v7m.c waits
  for PendSV instead of raising SVC, they set and clear PRIMASK, as \<^verbatim>\<open>cpsie i\<close> does
  in chcoreasm_v6m.s.
\<close>

definition port_lock_macro :: "port_config \<Rightarrow> cpu \<Rightarrow> cpu" where
  "port_lock_macro cfg s =
     (if CORTEX_SIMPLIFIED_PRIORITY cfg then s\<lparr>primask := True\<rparr> else port_lock cfg s)"

definition port_unlock_macro :: "port_config \<Rightarrow> cpu \<Rightarrow> cpu" where
  "port_unlock_macro cfg s =
     (if CORTEX_SIMPLIFIED_PRIORITY cfg then s\<lparr>primask := False\<rparr> else port_unlock cfg s)"

definition port_lock_from_isr :: "port_config \<Rightarrow> cpu \<Rightarrow> cpu" where
  "port_lock_from_isr cfg s = port_lock_macro cfg s"

definition port_unlock_from_isr :: "port_config \<Rightarrow> cpu \<Rightarrow> cpu" where
  "port_unlock_from_isr cfg s = port_unlock_macro cfg s"

text \<open>Whether the lock is held (released) in a state, and in a snapshot of the trace.\<close>

definition locked :: "port_config \<Rightarrow> cpu \<Rightarrow> bool" where
  "locked cfg s =
     (if CORTEX_SIMPLIFIED_PRIORITY cfg then primask s else basepri s = CORTEX_BASEPRI_KERNEL cfg)"

definition unlocked :: "port_config \<Rightarrow> cpu \<Rightarrow> bool" where
  "unlocked cfg s =
     (if CORTEX_SIMPLIFIED_PRIORITY cfg then \<not> primask s
      else basepri s = CORTEX_BASEPRI_DISABLED cfg)"

definition held :: "port_config \<Rightarrow> u32 \<times> bool \<Rightarrow> bool" where
  "held cfg snap =
     (if CORTEX_SIMPLIFIED_PRIORITY cfg then snd snap else fst snap = CORTEX_BASEPRI_KERNEL cfg)"

text \<open>
  The debug hooks \<^verbatim>\<open>dbg_check_lock()\<close> and \<^verbatim>\<open>dbg_check_unlock()\<close>: calls when
  \<^verbatim>\<open>CH_DBG_SYSTEM_STATE_CHECK\<close> is set (chcoreasm_v6m.s guards them so), nothing
  otherwise. \<^verbatim>\<open>chSysUnlock()\<close> is the hook followed by the release, the order
  \<^verbatim>\<open>_port_thread_start\<close> of chcoreasm_v6m.s spells out.
\<close>

definition dbg_check_lock :: "port_config \<Rightarrow> cpu \<Rightarrow> cpu" where
  "dbg_check_lock cfg s = (if CH_DBG_SYSTEM_STATE_CHECK cfg then log Dbg_check_lock s else s)"

definition dbg_check_unlock :: "port_config \<Rightarrow> cpu \<Rightarrow> cpu" where
  "dbg_check_unlock cfg s = (if CH_DBG_SYSTEM_STATE_CHECK cfg then log Dbg_check_unlock s else s)"

definition chSysUnlock_port :: "port_config \<Rightarrow> cpu \<Rightarrow> cpu" where
  "chSysUnlock_port cfg s = port_unlock_macro cfg (dbg_check_unlock cfg s)"

subsection \<open>chcore_v7m.c\<close>

definition PUSH_CONTEXT :: "port_config \<Rightarrow> (cpu \<Rightarrow> cpu flow) list" where
  "PUSH_CONTEXT cfg =
     (if CORTEX_USE_FPU cfg
      then [vpush [16 ..< 32], push [4, 5, 6, 7, 8, 9, 10, 11, LR]]
      else [push [4, 5, 6, 7, 8, 9, 10, 11, LR]])"

definition POP_CONTEXT :: "port_config \<Rightarrow> (cpu \<Rightarrow> cpu flow) list" where
  "POP_CONTEXT cfg =
     (if CORTEX_USE_FPU cfg
      then [pop [4, 5, 6, 7, 8, 9, 10, 11, PC], vpop [16 ..< 32]]
      else [pop [4, 5, 6, 7, 8, 9, 10, 11, PC]])"

text \<open>
  \<^verbatim>\<open>_port_switch(ntp, otp)\<close>: a naked function, so its body is the instructions of
  the two macros around the exchange of the stack pointers; \<^verbatim>\<open>ntp\<close> is in r0 and
  \<^verbatim>\<open>otp\<close> in r1.
\<close>

definition port_switch :: "port_config \<Rightarrow> cpu \<Rightarrow> cpu flow" where
  "port_switch cfg = run (PUSH_CONTEXT cfg @ [str SP 1 12, ldr SP 0 12] @ POP_CONTEXT cfg)"

text \<open>
  \<^verbatim>\<open>SVCallVector\<close> and \<^verbatim>\<open>PendSVVector\<close>: \<^verbatim>\<open>psp\<close> is a pointer to words, the
  context pointer a pointer to \<^verbatim>\<open>struct extctx\<close>.
\<close>

definition discard_context :: "port_config \<Rightarrow> cpu \<Rightarrow> cpu" where
  "discard_context cfg s =
     (let psp = regs s SP;
          s1 = (if CORTEX_USE_FPU cfg
                then s\<lparr>scb_fpcar := mem s psp, scb_fpccr := mem s (psp + 4)\<rparr>
                else s);
          psp1 = (if CORTEX_USE_FPU cfg then psp + 8 else psp);
          ctxp = psp1 + EXTCTX_SIZE cfg
      in s1\<lparr>regs := (regs s1)(SP := ctxp)\<rparr>)"

definition SVCallVector :: "port_config \<Rightarrow> cpu \<Rightarrow> cpu" where
  "SVCallVector cfg s = port_unlock_from_isr cfg (discard_context cfg s)"

definition PendSVVector :: "port_config \<Rightarrow> cpu \<Rightarrow> cpu" where
  "PendSVVector cfg s = discard_context cfg s"

text \<open>
  \<^verbatim>\<open>_port_irq_epilogue\<close>. The fields \<^verbatim>\<open>pc\<close> and \<^verbatim>\<open>xpsr\<close> are the seventh and
  the eighth word of \<^verbatim>\<open>struct extctx\<close>, the frame of the architecture.
\<close>

definition port_irq_epilogue :: "port_config \<Rightarrow> cpu \<Rightarrow> cpu" where
  "port_irq_epilogue cfg s0 =
     (let s1 = port_lock_from_isr cfg s0 in
      if (scb_icsr s1 AND ICSR_RETTOBASE cfg) \<noteq> 0 then
        (let psp = regs s1 SP;
             s2 = (if CORTEX_USE_FPU cfg
                   then s1\<lparr>mem := (mem s1)(psp - 4 := scb_fpccr s1, psp - 8 := scb_fpcar s1),
                            scb_fpccr := scb_fpccr s1 OR FPCCR_LSPACT cfg\<rparr>
                   else s1);
             psp2 = (if CORTEX_USE_FPU cfg then psp - 8 else psp);
             ctxp = psp2 - EXTCTX_SIZE cfg;
             s3 = s2\<lparr>regs := (regs s2)(SP := ctxp)\<rparr>;
             s4 = s3\<lparr>mem := (mem s3)(ctxp + 24 := port_switch_from_isr_entry cfg)\<rparr>
         in s4\<lparr>mem := (mem s4)(ctxp + 28 := 0x01000000)\<rparr>)
      else port_unlock_from_isr cfg s1)"

text \<open>
  \<^verbatim>\<open>_port_switch_from_isr\<close>. The call of the preemption check leaves its answer in
  r0. \<^verbatim>\<open>svc #0\<close> raises the SVCall exception, served by \<^verbatim>\<open>SVCallVector\<close>; in the
  simplified priority build the pending PendSV is taken once the lock is released,
  while the code spins.
\<close>

definition call_chSchIsPreemptionRequired :: "externals \<Rightarrow> cpu \<Rightarrow> cpu" where
  "call_chSchIsPreemptionRequired ext s =
     (let s1 = log SchIsPreemptionRequired s
      in s1\<lparr>regs := (regs s1)(0 := chSchIsPreemptionRequired ext (mem s1))\<rparr>)"

definition call_chSchDoReschedule :: "externals \<Rightarrow> cpu \<Rightarrow> cpu" where
  "call_chSchDoReschedule ext s =
     (let s1 = log SchDoReschedule s in s1\<lparr>mem := chSchDoReschedule ext (mem s1)\<rparr>)"

definition port_switch_from_isr :: "port_config \<Rightarrow> externals \<Rightarrow> cpu \<Rightarrow> cpu" where
  "port_switch_from_isr cfg ext s0 =
     (let s1 = dbg_check_lock cfg s0;
          s2 = call_chSchIsPreemptionRequired ext s1;
          s3 = (if regs s2 0 \<noteq> 0 then call_chSchDoReschedule ext s2 else s2);
          s4 = dbg_check_unlock cfg s3
      in if \<not> CORTEX_SIMPLIFIED_PRIORITY cfg
         then exception_return (SVCallVector cfg (exception_entry (log SVCall s4)))
         else
           (let s5 = s4\<lparr>scb_icsr := ICSR_PENDSVSET cfg\<rparr>;
                s6 = port_unlock_macro cfg s5
            in exception_return (PendSVVector cfg (exception_entry (log PendSV s6)))))"

text \<open>
  \<^verbatim>\<open>_port_thread_start\<close>: the lock is released, r5 moves to r0, the function r4
  points to is called, and \<^verbatim>\<open>chThdExit\<close> is called with what it returned in r0. The
  result is the state at the call of \<^verbatim>\<open>chThdExit\<close>, or at the call of the thread
  function when that never returns.
\<close>

definition call_thread_and_exit :: "externals \<Rightarrow> cpu \<Rightarrow> cpu" where
  "call_thread_and_exit ext s =
     (let s1 = log (ThreadFunction (regs s 4) (regs s 0)) s
      in case thread_code ext (regs s1 4) (regs s1 0) of
           None \<Rightarrow> s1
         | Some v \<Rightarrow> log (ThdExit v) (s1\<lparr>regs := (regs s1)(0 := v)\<rparr>))"

definition port_thread_start :: "port_config \<Rightarrow> externals \<Rightarrow> cpu \<Rightarrow> cpu" where
  "port_thread_start cfg ext s0 =
     (let s1 = chSysUnlock_port cfg s0;
          s2 = unflow (mov 0 5 s1)
      in call_thread_and_exit ext s2)"

subsection \<open>chcoreasm_v6m.s\<close>

definition port_switch_v6m :: "cpu \<Rightarrow> cpu flow" where
  "port_switch_v6m =
     run [push [4, 5, 6, 7, LR],
          mov 4 8, mov 5 9, mov 6 10, mov 7 11,
          push [4, 5, 6, 7],
          mov 3 SP,
          str 3 1 12,
          ldr 3 0 12,
          mov SP 3,
          pop [4, 5, 6, 7],
          mov 8 4, mov 9 5, mov 10 6, mov 11 7,
          pop [4, 5, 6, 7, PC]]"

definition cpsie_i :: "cpu \<Rightarrow> cpu" where
  "cpsie_i s = s\<lparr>primask := False\<rparr>"

definition port_thread_start_v6m :: "port_config \<Rightarrow> externals \<Rightarrow> cpu \<Rightarrow> cpu" where
  "port_thread_start_v6m cfg ext s0 =
     (let s1 = dbg_check_unlock cfg s0;
          s2 = cpsie_i s1;
          s3 = unflow (mov 0 5 s2)
      in call_thread_and_exit ext s3)"

text \<open>
  \<^verbatim>\<open>_port_switch_from_isr\<close> of the v6-M port, up to the loop at \<^verbatim>\<open>waithere\<close>.
  The word stored goes to the address of \<^verbatim>\<open>SCB_ICSR\<close> loaded into r2.
\<close>

definition port_switch_from_isr_v6m :: "port_config \<Rightarrow> externals \<Rightarrow> cpu \<Rightarrow> cpu" where
  "port_switch_from_isr_v6m cfg ext s0 =
     (let s1 = dbg_check_lock cfg s0;
          s2 = call_chSchIsPreemptionRequired ext s1;
          s3 = (if regs s2 0 = 0 then s2 else call_chSchDoReschedule ext s2);
          s4 = dbg_check_unlock cfg s3;
          s5 = s4\<lparr>regs := (regs s4)(2 := 0xE000ED04)\<rparr>;
          s6 = s5\<lparr>regs := (regs s5)(3 := 128)\<rparr>
      in if CORTEX_ALTERNATE_SWITCH cfg
         then
           (let s7 = s6\<lparr>regs := (regs s6)(3 := push_bit 21 (regs s6 3))\<rparr>;
                s8 = s7\<lparr>scb_icsr := regs s7 3\<rparr>
            in cpsie_i s8)
         else
           (let s7 = s6\<lparr>regs := (regs s6)(3 := push_bit 24 (regs s6 3))\<rparr>
            in s7\<lparr>scb_icsr := regs s7 3\<rparr>))"

subsection \<open>Saved contexts\<close>

text \<open>
  The addresses of \<^verbatim>\<open>n\<close> consecutive words from \<^verbatim>\<open>a\<close>, and the memory and the
  lowest address of the context that the saving half of \<^verbatim>\<open>_port_switch\<close> leaves
  (used to state and prove the properties of the switch).
\<close>

definition frame :: "u32 \<Rightarrow> nat \<Rightarrow> u32 list" where
  "frame a n = map (\<lambda>i. a + 4 * of_nat i) [0 ..< n]"

definition ctx_words :: "port_config \<Rightarrow> nat" where
  "ctx_words cfg = (if CORTEX_USE_FPU cfg then 25 else 9)"

definition ctx_base :: "port_config \<Rightarrow> cpu \<Rightarrow> u32" where
  "ctx_base cfg s = regs s SP - (if CORTEX_USE_FPU cfg then 100 else 36)"

definition switch_mem :: "port_config \<Rightarrow> cpu \<Rightarrow> (u32 \<Rightarrow> u32)" where
  "switch_mem cfg s =
     (stm (ctx_base cfg s) (map (regs s) [4, 5, 6, 7, 8, 9, 10, 11, LR])
        (if CORTEX_USE_FPU cfg
         then stm (regs s SP - 64) (map (sregs s) [16 ..< 32]) (mem s)
         else mem s))
     (regs s 1 + 12 := ctx_base cfg s)"

text \<open>
  The memory that the saving half of \<^verbatim>\<open>_port_switch\<close> of chcoreasm_v6m.s leaves:
  r4 to r7 and the link register pushed first, r8 to r11 below them, the context at
  the stack pointer less 36.
\<close>

definition switch_mem_v6m :: "cpu \<Rightarrow> (u32 \<Rightarrow> u32)" where
  "switch_mem_v6m s =
     (stm (regs s SP - 36) (map (regs s) [8, 9, 10, 11])
        (stm (regs s SP - 20) (map (regs s) [4, 5, 6, 7, LR]) (mem s)))
     (regs s 1 + 12 := regs s SP - 36)"

text \<open>
  The entries a run added to the trace, and whether a snapshot of the trace shows the
  lock released.
\<close>

definition added :: "cpu \<Rightarrow> cpu \<Rightarrow> (event \<times> u32 \<times> bool) list" where
  "added s s' = drop (length (trace s)) (trace s')"

definition released :: "port_config \<Rightarrow> u32 \<times> bool \<Rightarrow> bool" where
  "released cfg snap =
     (if CORTEX_SIMPLIFIED_PRIORITY cfg then \<not> snd snap
      else fst snap = CORTEX_BASEPRI_DISABLED cfg)"

section \<open>The I2C bus guard (i2c.c)\<close>

text \<open>
  The build options the bus guard depends on, and the threads: a thread is a number and
  \<^verbatim>\<open>tprio\<close> gives each thread its priority.
\<close>

record i2c_build =
  I2C_USE_MUTUAL_EXCLUSION :: bool
  CH_USE_MUTEXES :: bool
  CH_USE_SEMAPHORES :: bool

type_synonym tid = nat
type_synonym tprio = "tid \<Rightarrow> nat"

subsection \<open>Semaphores and mutexes\<close>

text \<open>
  Modelled from the spec: the counting semaphore (chsem.c is not among the sources).
  Section 4.6 of the specification: an integer count and a queue of waiting threads;
  \<^verbatim>\<open>wait()\<close> blocks if the count is not positive, else decrements it; \<^verbatim>\<open>signal()\<close>
  increments the count and wakes one waiter if any, the highest priority first and in
  arrival order among waiters of equal priority. The waiter that is woken completes its
  wait, which takes the unit of the count the signal gave. \<^verbatim>\<open>chSemWait\<close> answers
  whether the caller went on without blocking, \<^verbatim>\<open>chSemSignal\<close> the thread it woke.
\<close>

record Semaphore =
  s_cnt :: int
  s_queue :: "tid list"

fun prio_insert :: "tprio \<Rightarrow> tid \<Rightarrow> tid list \<Rightarrow> tid list" where
  "prio_insert p t [] = [t]"
| "prio_insert p t (x # xs) = (if p x < p t then t # x # xs else x # prio_insert p t xs)"

definition chSemInit :: "int \<Rightarrow> Semaphore" where
  "chSemInit n = \<lparr>s_cnt = n, s_queue = []\<rparr>"

definition chSemWait :: "tprio \<Rightarrow> tid \<Rightarrow> Semaphore \<Rightarrow> bool \<times> Semaphore" where
  "chSemWait p t sp =
     (if s_cnt sp \<le> 0
      then (False, sp\<lparr>s_queue := prio_insert p t (s_queue sp)\<rparr>)
      else (True, sp\<lparr>s_cnt := s_cnt sp - 1\<rparr>))"

definition chSemSignal :: "Semaphore \<Rightarrow> tid option \<times> Semaphore" where
  "chSemSignal sp =
     (let c = s_cnt sp + 1 in
      case s_queue sp of
        [] \<Rightarrow> (None, sp\<lparr>s_cnt := c\<rparr>)
      | w # ws \<Rightarrow> (Some w, sp\<lparr>s_cnt := c - 1, s_queue := ws\<rparr>))"

text \<open>
  Modelled from the spec: the mutex (chmtx.c is not among the sources). Section 4.6 of
  the specification: an owner and a nesting count; \<^verbatim>\<open>lock()\<close> blocks until the caller
  is the sole owner and nests for the owner; \<^verbatim>\<open>unlock()\<close> must be called by the owner
  and wakes the highest-priority waiter, which becomes the owner. A call of
  \<^verbatim>\<open>unlock()\<close> by another thread is the error. Priority inheritance changes the
  priority of the owner only, which is in no queue of this model; it is left out.
\<close>

record Mutex =
  m_owner :: "tid option"
  m_cnt :: nat
  m_queue :: "tid list"

definition chMtxInit :: Mutex where
  "chMtxInit = \<lparr>m_owner = None, m_cnt = 0, m_queue = []\<rparr>"

definition chMtxLock :: "tprio \<Rightarrow> tid \<Rightarrow> Mutex \<Rightarrow> bool \<times> Mutex" where
  "chMtxLock p t mp =
     (case m_owner mp of
        None \<Rightarrow> (True, mp\<lparr>m_owner := Some t, m_cnt := 1\<rparr>)
      | Some ow \<Rightarrow>
          if ow = t then (True, mp\<lparr>m_cnt := m_cnt mp + 1\<rparr>)
          else (False, mp\<lparr>m_queue := prio_insert p t (m_queue mp)\<rparr>))"

definition chMtxUnlock :: "tid \<Rightarrow> Mutex \<Rightarrow> error + (tid option \<times> Mutex)" where
  "chMtxUnlock t mp =
     (if m_owner mp \<noteq> Some t then Inl (DbgPanic ''chMtxUnlock'')
      else if 1 < m_cnt mp then Inr (None, mp\<lparr>m_cnt := m_cnt mp - 1\<rparr>)
      else case m_queue mp of
             [] \<Rightarrow> Inr (None, mp\<lparr>m_owner := None, m_cnt := 0\<rparr>)
           | w # ws \<Rightarrow> Inr (Some w, mp\<lparr>m_owner := Some w, m_cnt := 1, m_queue := ws\<rparr>))"

subsection \<open>The driver\<close>

text \<open>
  The driver object. In the source the field \<^verbatim>\<open>id_mutex\<close> exists in the builds with
  mutexes and the field \<^verbatim>\<open>id_semaphore\<close> in the others; the record has both and each
  function touches the one its build has. Pointers are \<^verbatim>\<open>None\<close> when \<^verbatim>\<open>NULL\<close>.
\<close>

datatype i2cstate_t = I2C_STOP | I2C_READY | I2C_ACTIVE_TRANSMIT | I2C_ACTIVE_RECEIVE

record I2CDriver =
  id_state :: i2cstate_t
  id_config :: "nat option"
  rxbuf :: "nat option"
  txbuf :: "nat option"
  id_thread :: "tid option"
  id_mutex :: Mutex
  id_semaphore :: Semaphore

definition i2cObjectInit :: "i2c_build \<Rightarrow> I2CDriver \<Rightarrow> I2CDriver" where
  "i2cObjectInit cfg i2cp =
     (let d = i2cp\<lparr>id_state := I2C_STOP, id_config := None, rxbuf := None,
                   txbuf := None, id_thread := None\<rparr>
      in if I2C_USE_MUTUAL_EXCLUSION cfg
         then (if CH_USE_MUTEXES cfg
               then d\<lparr>id_mutex := chMtxInit\<rparr>
               else d\<lparr>id_semaphore := chSemInit 1\<rparr>)
         else d)"

text \<open>
  \<^verbatim>\<open>i2cAcquireBus\<close> and \<^verbatim>\<open>i2cReleaseBus\<close>, called by thread \<^verbatim>\<open>t\<close>. With neither
  mutexes nor semaphores in the build, both bodies are empty. \<^verbatim>\<open>i2cAcquireBus\<close>
  answers whether the caller went on without blocking, \<^verbatim>\<open>i2cReleaseBus\<close> the thread it
  woke.
\<close>

definition i2cAcquireBus :: "i2c_build \<Rightarrow> tprio \<Rightarrow> tid \<Rightarrow> I2CDriver \<Rightarrow> bool \<times> I2CDriver" where
  "i2cAcquireBus cfg p t i2cp =
     (if CH_USE_MUTEXES cfg then
        (let r = chMtxLock p t (id_mutex i2cp) in (fst r, i2cp\<lparr>id_mutex := snd r\<rparr>))
      else if CH_USE_SEMAPHORES cfg then
        (let r = chSemWait p t (id_semaphore i2cp) in (fst r, i2cp\<lparr>id_semaphore := snd r\<rparr>))
      else (True, i2cp))"

definition i2cReleaseBus :: "i2c_build \<Rightarrow> tid \<Rightarrow> I2CDriver \<Rightarrow> error + (tid option \<times> I2CDriver)" where
  "i2cReleaseBus cfg t i2cp =
     (if CH_USE_MUTEXES cfg then
        (case chMtxUnlock t (id_mutex i2cp) of
           Inl e \<Rightarrow> Inl e
         | Inr r \<Rightarrow> Inr (fst r, i2cp\<lparr>id_mutex := snd r\<rparr>))
      else if CH_USE_SEMAPHORES cfg then
        (let r = chSemSignal (id_semaphore i2cp) in Inr (fst r, i2cp\<lparr>id_semaphore := snd r\<rparr>))
      else Inr (None, i2cp))"

subsection \<open>Threads sharing the bus\<close>

text \<open>
  The calls of the threads in the order they are made. A thread owns the bus from the
  return of its \<^verbatim>\<open>i2cAcquireBus\<close> (at once, or when a release wakes it) to its call of
  \<^verbatim>\<open>i2cReleaseBus\<close>. A thread that owns the bus or waits for it does not call
  \<^verbatim>\<open>i2cAcquireBus\<close>, and only an owner calls \<^verbatim>\<open>i2cReleaseBus\<close>: a sequence of calls
  that is not of this kind has no run, and neither has one in which a release is
  refused.
\<close>

datatype bus_call = Acquire tid | Release tid

record bus =
  drv :: I2CDriver
  owners :: "tid list"

definition waiters :: "i2c_build \<Rightarrow> I2CDriver \<Rightarrow> tid list" where
  "waiters cfg i2cp =
     (if CH_USE_MUTEXES cfg then m_queue (id_mutex i2cp) else s_queue (id_semaphore i2cp))"

definition bus_init :: "i2c_build \<Rightarrow> I2CDriver \<Rightarrow> bus" where
  "bus_init cfg i2cp = \<lparr>drv = i2cObjectInit cfg i2cp, owners = []\<rparr>"

fun bus_step :: "i2c_build \<Rightarrow> tprio \<Rightarrow> bus_call \<Rightarrow> bus \<Rightarrow> bus option" where
  "bus_step cfg p (Acquire t) b =
     (if t \<in> set (owners b) \<or> t \<in> set (waiters cfg (drv b)) then None
      else let r = i2cAcquireBus cfg p t (drv b)
           in Some \<lparr>drv = snd r, owners = (if fst r then owners b @ [t] else owners b)\<rparr>)"
| "bus_step cfg p (Release t) b =
     (if t \<notin> set (owners b) then None
      else case i2cReleaseBus cfg t (drv b) of
             Inl e \<Rightarrow> None
           | Inr r \<Rightarrow>
               Some \<lparr>drv = snd r,
                     owners = remove1 t (owners b) @ (case fst r of None \<Rightarrow> [] | Some w \<Rightarrow> [w])\<rparr>)"

fun bus_run :: "i2c_build \<Rightarrow> tprio \<Rightarrow> bus_call list \<Rightarrow> bus \<Rightarrow> bus option" where
  "bus_run cfg p [] b = Some b"
| "bus_run cfg p (c # cs) b =
     (case bus_step cfg p c b of None \<Rightarrow> None | Some b' \<Rightarrow> bus_run cfg p cs b')"

text \<open>
  The invariants of the runs in the two builds, and the relation between a run with the
  semaphore and the run of the same calls with the mutex.
\<close>

definition sem_inv :: "bus \<Rightarrow> bool" where
  "sem_inv b =
     ((owners b = [] \<and> s_cnt (id_semaphore (drv b)) = 1 \<and> s_queue (id_semaphore (drv b)) = []) \<or>
      (length (owners b) = 1 \<and> s_cnt (id_semaphore (drv b)) = 0))"

definition mtx_inv :: "bus \<Rightarrow> bool" where
  "mtx_inv b =
     ((owners b = [] \<and> m_owner (id_mutex (drv b)) = None \<and> m_queue (id_mutex (drv b)) = []) \<or>
      (\<exists>t. owners b = [t] \<and> m_owner (id_mutex (drv b)) = Some t \<and> m_cnt (id_mutex (drv b)) = 1))"

definition bus_sim :: "bus \<Rightarrow> bus \<Rightarrow> bool" where
  "bus_sim bs bm =
     (sem_inv bs \<and> mtx_inv bm \<and> owners bs = owners bm \<and>
      s_queue (id_semaphore (drv bs)) = m_queue (id_mutex (drv bm)))"

section \<open>Concrete configurations and states\<close>

definition ex_cfg :: hal_config where
  "ex_cfg = \<lparr>CH_DBG_ENABLE_CHECKS = True, CH_DBG_ENABLE_ASSERTS = True,
     MMC_POLLING_INTERVAL = 2, MMC_POLLING_DELAY_ST = 10, MMC_WAIT_DATA = 3,
     MMC_SECTOR_SIZE = 4\<rparr>"

definition ex_sys :: "mmcstate_t \<Rightarrow> (nat \<Rightarrow> u8) \<Rightarrow> sys" where
  "ex_sys st rx = \<lparr>state = st, config = None, cnt = 0, vt = None, lock = False, klog = [],
     spi_rx = rx, spi_pos = 0, spi_selected = False, spi_running = True\<rparr>"

definition ex_port :: "bool \<Rightarrow> bool \<Rightarrow> port_config" where
  "ex_port fpu simplified = \<lparr>CORTEX_USE_FPU = fpu, CORTEX_SIMPLIFIED_PRIORITY = simplified,
     CORTEX_ALTERNATE_SWITCH = False, CH_DBG_SYSTEM_STATE_CHECK = True,
     CORTEX_BASEPRI_KERNEL = 0x40, CORTEX_BASEPRI_DISABLED = 0,
     ICSR_RETTOBASE = 0x800, ICSR_PENDSVSET = 0x10000000, FPCCR_LSPACT = 1,
     EXTCTX_SIZE = 32, port_switch_from_isr_entry = 0x08000400,
     port_thread_start_entry = 0x08000500\<rparr>"

definition ex_cpu :: "(nat \<Rightarrow> u32) \<Rightarrow> (u32 \<Rightarrow> u32) \<Rightarrow> cpu" where
  "ex_cpu rf m = \<lparr>regs = rf, sregs = (\<lambda>r. 0), xpsr = 0x01000000, basepri = 0x40,
     primask = False, mem = m, scb_icsr = 0, scb_fpccr = 0, scb_fpcar = 0, trace = []\<rparr>"

text \<open>
  Thread A (its structure at 0x20000100, its stack pointer at 0x20001000) calls
  \<^verbatim>\<open>_port_switch(B, A)\<close>; the context of thread B (at 0x20000200) was saved at
  0x20002000.
\<close>

definition ex_A_out :: cpu where
  "ex_A_out = ex_cpu ((\<lambda>r. 0)(0 := 0x20000200, 1 := 0x20000100, 4 := 0xA4, 5 := 0xA5, 6 := 0xA6,
       7 := 0xA7, 8 := 0xA8, 9 := 0xA9, 10 := 0xAA, 11 := 0xAB, SP := 0x20001000,
       LR := 0x08000101))
     ((\<lambda>a. 0)(0x2000020C := 0x20002000))"

text \<open>Thread B, resumed by that switch, later calls \<^verbatim>\<open>_port_switch(A, B)\<close>.\<close>

definition ex_B_out :: "cpu \<Rightarrow> cpu" where
  "ex_B_out s = s\<lparr>regs := (regs s)(0 := 0x20000100, 1 := 0x20000200, 4 := 0xB4, 5 := 0xB5,
       LR := 0x08000201)\<rparr>"

definition ex_roundtrip :: "port_config \<Rightarrow> cpu" where
  "ex_roundtrip cfg = unflow (port_switch cfg (ex_B_out (unflow (port_switch cfg ex_A_out))))"

definition ex_roundtrip_v6m :: cpu where
  "ex_roundtrip_v6m = unflow (port_switch_v6m (ex_B_out (unflow (port_switch_v6m ex_A_out))))"

definition ex_ext :: "u32 \<Rightarrow> externals" where
  "ex_ext answer = \<lparr>chSchIsPreemptionRequired = (\<lambda>m. answer), chSchDoReschedule = (\<lambda>m. m),
     thread_code = (\<lambda>f x. if f = 0x08001000 then Some (x + 1) else None)\<rparr>"

text \<open>
  A thread at 0x20000100 calls \<^verbatim>\<open>_port_switch\<close> for a new thread at 0x20000300 whose
  context was prepared at 0x20002FDC: the function 0x08001000 in the place of r4, the
  argument 7 in the place of r5, \<^verbatim>\<open>_port_thread_start\<close> in the place of the link
  register.
\<close>

definition ex_new_thread :: cpu where
  "ex_new_thread = ex_cpu ((\<lambda>r. 0)(0 := 0x20000300, 1 := 0x20000100, SP := 0x20001000,
       LR := 0x08000101))
     ((\<lambda>a. 0)(0x2000030C := 0x20002FDC, 0x20002FDC := 0x08001000, 0x20002FE0 := 7,
        0x20002FFC := 0x08000500))"

text \<open>
  The same call in the v6-M port, where the context of the new thread was prepared for
  \<^verbatim>\<open>_port_switch\<close> of chcoreasm_v6m.s: r8 to r11 first, then the function in the
  place of r4 (0x20002FEC), the argument in the place of r5 (0x20002FF0), and
  \<^verbatim>\<open>_port_thread_start\<close> in the place of the program counter (0x20002FFC). The
  lock of this port is PRIMASK, held at the switch.
\<close>

definition ex_new_thread_v6m :: cpu where
  "ex_new_thread_v6m = (ex_cpu ((\<lambda>r. 0)(0 := 0x20000300, 1 := 0x20000100, SP := 0x20001000,
       LR := 0x08000101))
     ((\<lambda>a. 0)(0x2000030C := 0x20002FDC, 0x20002FEC := 0x08001000, 0x20002FF0 := 7,
        0x20002FFC := 0x08000500)))
     \<lparr>basepri := 0, primask := True\<rparr>"

text \<open>
  The end of an interrupt handler that returns to thread mode: the interrupted thread's
  frame is at 0x20001000, its return address 0x08000777.
\<close>

definition ex_isr :: cpu where
  "ex_isr = (ex_cpu ((\<lambda>r. 0)(SP := 0x20001000)) ((\<lambda>a. 0)(0x20001018 := 0x08000777)))
     \<lparr>basepri := 0, scb_icsr := 0x800\<rparr>"

text \<open>
  A build with semaphores and without mutexes, a driver object before its
  initialization, and threads whose priority is their number.
\<close>

definition ex_i2c :: i2c_build where
  "ex_i2c = \<lparr>I2C_USE_MUTUAL_EXCLUSION = True, CH_USE_MUTEXES = False, CH_USE_SEMAPHORES = True\<rparr>"

definition ex_drv :: I2CDriver where
  "ex_drv = \<lparr>id_state = I2C_READY, id_config = Some 7, rxbuf = Some 1, txbuf = Some 2,
             id_thread = Some 9,
             id_mutex = \<lparr>m_owner = Some 5, m_cnt = 3, m_queue = [6]\<rparr>,
             id_semaphore = \<lparr>s_cnt = - 4, s_queue = [8]\<rparr>\<rparr>"

definition ex_calls :: "bus_call list" where
  "ex_calls = [Acquire 1, Acquire 2, Acquire 3, Release 1, Acquire 1, Release 3]"

section \<open>Properties of the MMC driver\<close>

subsection \<open>The unbounded wait of sync\<close>

lemma sync_loop_terminates:
  "spi_rx s (spi_pos s + k) = 0xFF \<Longrightarrow> \<exists>n. sync_loop s = Some (s\<lparr>spi_pos := n\<rparr>)"
proof (induction k arbitrary: s)
  case 0
  then show ?case
    by (subst sync_loop.simps) (auto simp: spiReceive_def)
next
  case (Suc k)
  show ?case
  proof (cases "spi_rx s (spi_pos s) = 0xFF")
    case True
    then show ?thesis
      by (subst sync_loop.simps) (auto simp: spiReceive_def)
  next
    case False
    let ?s1 = "s\<lparr>spi_pos := spi_pos s + 1\<rparr>"
    have "spi_rx ?s1 (spi_pos ?s1 + k) = 0xFF" using Suc.prems by simp
    from Suc.IH [OF this] obtain n where "sync_loop ?s1 = Some (?s1\<lparr>spi_pos := n\<rparr>)" ..
    with False show ?thesis
      by (subst sync_loop.simps) (auto simp: spiReceive_def)
  qed
qed

lemma sync_loop_Some_answer:
  assumes "sync_loop s = Some s'"
  shows "\<exists>k. spi_rx s (spi_pos s + k) = 0xFF"
proof (rule sync_loop.raw_induct [where P = "\<lambda>x y. \<exists>k. spi_rx x (spi_pos x + k) = 0xFF", OF _ assms])
  fix f :: "sys \<Rightarrow> sys option" and x y :: sys
  assume IH: "\<And>a b. f a = Some b \<Longrightarrow> \<exists>k. spi_rx a (spi_pos a + k) = 0xFF"
    and eq: "(if hd (fst (spiReceive 1 x)) = 0xFF then Some (snd (spiReceive 1 x))
              else f (snd (spiReceive 1 x))) = Some y"
  show "\<exists>k. spi_rx x (spi_pos x + k) = 0xFF"
  proof (cases "spi_rx x (spi_pos x) = 0xFF")
    case True
    then have "spi_rx x (spi_pos x + 0) = 0xFF" by simp
    then show ?thesis by blast
  next
    case False
    with eq have "f (snd (spiReceive 1 x)) = Some y"
      by (simp add: spiReceive_def)
    from IH [OF this] obtain k where "spi_rx x (spi_pos x + 1 + k) = 0xFF"
      by (auto simp: spiReceive_def)
    then have "spi_rx x (spi_pos x + Suc k) = 0xFF" by simp
    then show ?thesis by blast
  qed
qed

lemma sync_loop_diverges:
  "(\<forall>k. spi_rx s (spi_pos s + k) \<noteq> 0xFF) \<Longrightarrow> sync_loop s = None"
  using sync_loop_Some_answer [of s] by (cases "sync_loop s") auto

subsection \<open>The bounded waits of recvr1 and mmcSequentialRead\<close>

lemma recvr1_loop_timeout:
  "i \<le> 9 \<Longrightarrow> \<forall>k < 9 - i. spi_rx s (spi_pos s + k) = 0xFF \<Longrightarrow>
   recvr1_loop i s = (0xFF, s\<lparr>spi_pos := spi_pos s + (9 - i)\<rparr>)"
proof (induction i s rule: recvr1_loop.induct)
  case (1 i s)
  show ?case
  proof (cases "i < 9")
    case False
    with "1.prems"(1) show ?thesis by (subst recvr1_loop.simps) simp
  next
    case True
    from "1.prems"(2) True have b: "spi_rx s (spi_pos s) = 0xFF"
      by (metis add.right_neutral zero_less_diff)
    let ?s1 = "snd (spiReceive 1 s)"
    have "\<forall>k < 9 - Suc i. spi_rx ?s1 (spi_pos ?s1 + k) = 0xFF"
    proof (intro allI impI)
      fix k assume "k < 9 - Suc i"
      then have "Suc k < 9 - i" by simp
      with "1.prems"(2) have "spi_rx s (spi_pos s + Suc k) = 0xFF" by blast
      then show "spi_rx ?s1 (spi_pos ?s1 + k) = 0xFF" by (simp add: spiReceive_def)
    qed
    with "1.IH" True b have "recvr1_loop (Suc i) ?s1 = (0xFF, ?s1\<lparr>spi_pos := spi_pos ?s1 + (9 - Suc i)\<rparr>)"
      by (simp add: spiReceive_def)
    with True b show ?thesis
      by (subst recvr1_loop.simps) (simp add: spiReceive_def)
  qed
qed

lemma recvr1_loop_answer:
  "fst (recvr1_loop i s) = 0xFF \<Longrightarrow> k < 9 - i \<Longrightarrow> spi_rx s (spi_pos s + k) = 0xFF"
proof (induction i s arbitrary: k rule: recvr1_loop.induct)
  case (1 i s)
  from "1.prems"(2) have lt: "i < 9" by simp
  show ?case
  proof (cases "spi_rx s (spi_pos s) = 0xFF")
    case False
    with lt "1.prems"(1) show ?thesis
      by (subst (asm) recvr1_loop.simps) (simp add: spiReceive_def)
  next
    case True
    with lt "1.prems"(1) have r: "fst (recvr1_loop (Suc i) (snd (spiReceive 1 s))) = 0xFF"
      by (subst (asm) recvr1_loop.simps) (simp add: spiReceive_def)
    show ?thesis
    proof (cases k)
      case 0
      with True show ?thesis by simp
    next
      case (Suc k')
      with "1.prems"(2) have "k' < 9 - Suc i" by simp
      from "1.IH" [OF lt _ r this] True
      have "spi_rx (snd (spiReceive 1 s)) (spi_pos (snd (spiReceive 1 s)) + k') = 0xFF"
        by (simp add: spiReceive_def)
      with Suc show ?thesis by (simp add: spiReceive_def)
    qed
  qed
qed

lemma recvr1_timeout_iff:
  "(fst (recvr1 r) = 0xFF) = (\<forall>k<9. spi_rx r (spi_pos r + k) = 0xFF)"
proof
  assume "fst (recvr1 r) = 0xFF"
  then show "\<forall>k<9. spi_rx r (spi_pos r + k) = 0xFF"
    using recvr1_loop_answer [of 0 r] by (simp add: recvr1_def)
next
  assume "\<forall>k<9. spi_rx r (spi_pos r + k) = 0xFF"
  then show "fst (recvr1 r) = 0xFF"
    using recvr1_loop_timeout [of 0 r] by (simp add: recvr1_def)
qed

lemma seqread_loop_state:
  "state (snd (snd (seqread_loop cfg i buffer s))) = state s"
proof (induction cfg i buffer s rule: seqread_loop.induct)
  case (1 cfg i buffer s)
  then show ?case
    by (subst seqread_loop.simps) (simp add: spiReceive_def spiIgnore_def)
qed

lemma seqread_loop_timeout:
  "\<forall>k. int k < MMC_WAIT_DATA cfg - i \<longrightarrow> spi_rx s (spi_pos s + k) \<noteq> 0xFE \<Longrightarrow>
   \<not> fst (seqread_loop cfg i buffer s) \<and>
   spi_pos (snd (snd (seqread_loop cfg i buffer s))) = spi_pos s + nat (MMC_WAIT_DATA cfg - i)"
proof (induction cfg i buffer s rule: seqread_loop.induct)
  case (1 cfg i buffer s)
  show ?case
  proof (cases "i < MMC_WAIT_DATA cfg")
    case False
    then show ?thesis by (subst seqread_loop.simps, subst seqread_loop.simps) simp
  next
    case True
    with "1.prems" [rule_format, of 0] have b: "spi_rx s (spi_pos s) \<noteq> 0xFE" by simp
    then have b': "hd (store (fst (spiReceive 1 s)) buffer) \<noteq> 0xFE"
      by (simp add: spiReceive_def store_def)
    let ?s1 = "snd (spiReceive 1 s)"
    have "\<forall>k. int k < MMC_WAIT_DATA cfg - (i + 1) \<longrightarrow> spi_rx ?s1 (spi_pos ?s1 + k) \<noteq> 0xFE"
    proof (intro allI impI)
      fix k assume "int k < MMC_WAIT_DATA cfg - (i + 1)"
      then have "int (Suc k) < MMC_WAIT_DATA cfg - i" by simp
      with "1.prems" have "spi_rx s (spi_pos s + Suc k) \<noteq> 0xFE" by blast
      then show "spi_rx ?s1 (spi_pos ?s1 + k) \<noteq> 0xFE" by (simp add: spiReceive_def)
    qed
    from "1.IH" [OF True _ this] b' True show ?thesis
      apply (subst seqread_loop.simps, subst (2) seqread_loop.simps)
      by (simp add: spiReceive_def)
  qed
qed

lemma seqread_loop_token:
  "int k < MMC_WAIT_DATA cfg - i \<Longrightarrow> spi_rx s (spi_pos s + k) = 0xFE \<Longrightarrow>
   fst (seqread_loop cfg i buffer s)"
proof (induction cfg i buffer s arbitrary: k rule: seqread_loop.induct)
  case (1 cfg i buffer s)
  from "1.prems"(1) have lt: "i < MMC_WAIT_DATA cfg" by simp
  show ?case
  proof (cases "spi_rx s (spi_pos s) = 0xFE")
    case True
    with lt show ?thesis
      by (subst seqread_loop.simps) (simp add: spiReceive_def store_def)
  next
    case False
    then have b': "hd (store (fst (spiReceive 1 s)) buffer) \<noteq> 0xFE"
      by (simp add: spiReceive_def store_def)
    from False "1.prems"(2) obtain k' where k: "k = Suc k'" by (cases k) auto
    with "1.prems" have "int k' < MMC_WAIT_DATA cfg - (i + 1)"
      and "spi_rx (snd (spiReceive 1 s)) (spi_pos (snd (spiReceive 1 s)) + k') = 0xFE"
      by (simp_all add: spiReceive_def)
    from "1.IH" [OF lt b' this] lt b' show ?thesis
      by (subst seqread_loop.simps) simp
  qed
qed

subsection \<open>mmcDisconnect\<close>

lemma sync_returns:
  assumes "spi_rx s (spi_pos s + k) = 0xFF"
  shows "\<exists>n. sync s = Some (s\<lparr>spi_pos := n, spi_selected := False\<rparr>)"
proof -
  have "spi_rx (spiSelect s) (spi_pos (spiSelect s) + k) = 0xFF"
    using assms by (simp add: spiSelect_def)
  from sync_loop_terminates [OF this]
  obtain n where "sync_loop (spiSelect s) = Some (spiSelect s\<lparr>spi_pos := n\<rparr>)" ..
  then have "sync s = Some (s\<lparr>spi_pos := n, spi_selected := False\<rparr>)"
    by (simp add: sync_def spiSelect_def spiUnselect_def)
  then show ?thesis ..
qed

lemma mmcDisconnect_status:
  "mmcDisconnect cfg status0 s = Some (Inr (st, s')) \<Longrightarrow> st"
  by (auto simp: mmcDisconnect_def mmcDisconnect_READY_def mmcDisconnect_INSERTED_def
      mmcDisconnect_default_def Let_def split: if_splits option.splits mmcstate_t.splits)

text \<open>
  Claim C7. In every driver state other than \<^verbatim>\<open>MMC_UNINIT\<close> and \<^verbatim>\<open>MMC_STOP\<close>,
  \<^verbatim>\<open>mmcDisconnect\<close> returns \<^verbatim>\<open>TRUE\<close>: every label of the switch runs into the
  default label, which overwrites the status. From \<^verbatim>\<open>MMC_READY\<close> the function first
  waits in \<^verbatim>\<open>sync\<close> for the card to answer 0xFF, so there the return needs the card
  to answer 0xFF at some time; the driver then ends in \<^verbatim>\<open>MMC_INSERTED\<close>.
\<close>

theorem mmcDisconnect_returns_TRUE:
  assumes "state s \<noteq> MMC_UNINIT" and "state s \<noteq> MMC_STOP"
    and "state s = MMC_READY \<Longrightarrow> \<exists>k. spi_rx s (spi_pos s + k) = 0xFF"
  shows "\<exists>s'. mmcDisconnect cfg status0 s = Some (Inr (True, s')) \<and>
           state s' = (if state s = MMC_READY then MMC_INSERTED else state s)"
proof (cases "state s = MMC_READY")
  case True
  with assms(3) obtain k where "spi_rx s (spi_pos s + k) = 0xFF" by blast
  from sync_returns [OF this] obtain n
    where "sync s = Some (s\<lparr>spi_pos := n, spi_selected := False\<rparr>)" ..
  with True show ?thesis
    by (simp add: mmcDisconnect_def mmcDisconnect_READY_def mmcDisconnect_INSERTED_def
        mmcDisconnect_default_def chSysLock_def chSysUnlock_def spiStop_def)
next
  case False
  with assms(1,2) show ?thesis
    by (cases "state s")
      (simp_all add: mmcDisconnect_def mmcDisconnect_INSERTED_def
        mmcDisconnect_default_def spiStop_def)
qed

theorem mmcDisconnect_returns_TRUE_witness:
  "\<exists>s'. mmcDisconnect ex_cfg False
          (ex_sys MMC_READY (\<lambda>n. if n = 2 then 0xFF else 0)) = Some (Inr (True, s')) \<and>
        state s' = MMC_INSERTED"
proof -
  let ?s = "ex_sys MMC_READY (\<lambda>n. if n = 2 then 0xFF else 0)"
  have h1: "state ?s \<noteq> MMC_UNINIT" and h2: "state ?s \<noteq> MMC_STOP"
    by (simp_all add: ex_sys_def)
  have h3: "\<exists>k. spi_rx ?s (spi_pos ?s + k) = 0xFF"
    by (rule exI [of _ 2]) (simp add: ex_sys_def)
  from mmcDisconnect_returns_TRUE [OF h1 h2 h3, of ex_cfg False]
  show ?thesis by (simp add: ex_sys_def)
qed

subsection \<open>Time-outs of the waits\<close>

text \<open>
  Claim C9. A wait that times out returns the failure result and never the success
  result. \<^verbatim>\<open>recvr1\<close> returns 0xFF exactly when all nine receptions gave 0xFF (it has
  then consumed nine bytes); any other run returns a byte different from 0xFF.
  \<^verbatim>\<open>mmcSequentialRead\<close>, entered in \<^verbatim>\<open>MMC_READING\<close>, returns \<^verbatim>\<open>TRUE\<close> exactly when none
  of the \<^verbatim>\<open>MMC_WAIT_DATA\<close> receptions gave the token 0xFE; it has then made that many
  receptions and left the driver in \<^verbatim>\<open>MMC_READY\<close>. When the token arrives in time it
  returns \<^verbatim>\<open>FALSE\<close> and the driver stays in \<^verbatim>\<open>MMC_READING\<close>. (The model runs the
  function without an interleaved timer callback.)
\<close>

theorem wait_timeout_results:
  assumes "state s = MMC_READING"
  shows "(if \<forall>k<9. spi_rx r (spi_pos r + k) = 0xFF
          then recvr1 r = (0xFF, r\<lparr>spi_pos := spi_pos r + 9\<rparr>)
          else fst (recvr1 r) \<noteq> 0xFF) \<and>
         (if \<forall>k. int k < MMC_WAIT_DATA cfg \<longrightarrow> spi_rx s (spi_pos s + k) \<noteq> 0xFE
          then fst (mmcSequentialRead cfg buffer s) = True \<and>
               state (snd (snd (mmcSequentialRead cfg buffer s))) = MMC_READY \<and>
               spi_pos (snd (snd (mmcSequentialRead cfg buffer s))) = spi_pos s + nat (MMC_WAIT_DATA cfg)
          else fst (mmcSequentialRead cfg buffer s) = False \<and>
               state (snd (snd (mmcSequentialRead cfg buffer s))) = MMC_READING)"
proof (intro conjI)
  show "if \<forall>k<9. spi_rx r (spi_pos r + k) = 0xFF
        then recvr1 r = (0xFF, r\<lparr>spi_pos := spi_pos r + 9\<rparr>)
        else fst (recvr1 r) \<noteq> 0xFF"
  proof (cases "\<forall>k<9. spi_rx r (spi_pos r + k) = 0xFF")
    case True
    with recvr1_loop_timeout [of 0 r] have "recvr1_loop 0 r = (0xFF, r\<lparr>spi_pos := spi_pos r + 9\<rparr>)"
      by simp
    with True show ?thesis by (simp add: recvr1_def)
  next
    case False
    with recvr1_timeout_iff [of r] have "fst (recvr1 r) \<noteq> 0xFF" by blast
    with False show ?thesis by (simp only: if_False simp_thms)
  qed
next
  let ?s2 = "chSysUnlock (chSysLock s)"
  let ?r = "seqread_loop cfg 0 buffer ?s2"
  have st: "state ?s2 = MMC_READING" and rx: "spi_rx ?s2 = spi_rx s" and pos: "spi_pos ?s2 = spi_pos s"
    using assms by (simp_all add: chSysLock_def chSysUnlock_def)
  show "if \<forall>k. int k < MMC_WAIT_DATA cfg \<longrightarrow> spi_rx s (spi_pos s + k) \<noteq> 0xFE
          then fst (mmcSequentialRead cfg buffer s) = True \<and>
               state (snd (snd (mmcSequentialRead cfg buffer s))) = MMC_READY \<and>
               spi_pos (snd (snd (mmcSequentialRead cfg buffer s))) = spi_pos s + nat (MMC_WAIT_DATA cfg)
          else fst (mmcSequentialRead cfg buffer s) = False \<and>
               state (snd (snd (mmcSequentialRead cfg buffer s))) = MMC_READING"
  proof (cases "\<forall>k. int k < MMC_WAIT_DATA cfg \<longrightarrow> spi_rx s (spi_pos s + k) \<noteq> 0xFE")
    case True
    then have "\<forall>k. int k < MMC_WAIT_DATA cfg - 0 \<longrightarrow> spi_rx ?s2 (spi_pos ?s2 + k) \<noteq> 0xFE"
      by (simp add: rx pos)
    from seqread_loop_timeout [OF this, of buffer]
    have a: "\<not> fst ?r" and b: "spi_pos (snd (snd ?r)) = spi_pos s + nat (MMC_WAIT_DATA cfg)"
      by (simp_all add: pos)
    have c: "state (snd (snd ?r)) = MMC_READING"
      by (simp add: seqread_loop_state st)
    from True a b c assms show ?thesis
      by (simp add: mmcSequentialRead_def Let_def chSysLock_def chSysUnlock_def spiUnselect_def)
  next
    case False
    then obtain k where "int k < MMC_WAIT_DATA cfg - 0" "spi_rx ?s2 (spi_pos ?s2 + k) = 0xFE"
      by (auto simp: rx pos)
    from seqread_loop_token [OF this, of buffer] have a: "fst ?r" .
    have c: "state (snd (snd ?r)) = MMC_READING"
      by (simp add: seqread_loop_state st)
    from False a c assms show ?thesis
      by (simp add: mmcSequentialRead_def Let_def chSysLock_def chSysUnlock_def)
  qed
qed


theorem wait_timeout_results_witness:
  "recvr1 (ex_sys MMC_READY (\<lambda>n. 0xFF)) = (0xFF, ex_sys MMC_READY (\<lambda>n. 0xFF)\<lparr>spi_pos := 9\<rparr>) \<and>
   fst (mmcSequentialRead ex_cfg [] (ex_sys MMC_READING (\<lambda>n. 0))) = True \<and>
   state (snd (snd (mmcSequentialRead ex_cfg [] (ex_sys MMC_READING (\<lambda>n. 0))))) = MMC_READY \<and>
   spi_pos (snd (snd (mmcSequentialRead ex_cfg [] (ex_sys MMC_READING (\<lambda>n. 0))))) = 3 \<and>
   fst (recvr1 (ex_sys MMC_READY (\<lambda>n. if n = 4 then 0x01 else 0xFF))) \<noteq> 0xFF \<and>
   fst (mmcSequentialRead ex_cfg [] (ex_sys MMC_READING (\<lambda>n. if n = 1 then 0xFE else 0))) = False"
proof -
  let ?t = "ex_sys MMC_READING (\<lambda>n. 0)"
  let ?u = "ex_sys MMC_READING (\<lambda>n. if n = 1 then 0xFE else 0)"
  let ?r = "ex_sys MMC_READY (\<lambda>n. 0xFF)"
  let ?q = "ex_sys MMC_READY (\<lambda>n. if n = 4 then 0x01 else 0xFF)"
  have t: "state ?t = MMC_READING" and u: "state ?u = MMC_READING"
    by (simp_all add: ex_sys_def)
  have q: "\<not> (\<forall>k<9. spi_rx ?q (spi_pos ?q + k) = 0xFF)"
    by (auto simp: ex_sys_def intro!: exI [of _ 4])
  have nu: "\<not> (\<forall>k. int k < MMC_WAIT_DATA ex_cfg \<longrightarrow> spi_rx ?u (spi_pos ?u + k) \<noteq> 0xFE)"
    by (auto simp: ex_sys_def ex_cfg_def intro!: exI [of _ 1])
  from wait_timeout_results [OF t, of ?r ex_cfg "[]"]
  have 1: "recvr1 ?r = (0xFF, ?r\<lparr>spi_pos := 9\<rparr>) \<and> fst (mmcSequentialRead ex_cfg [] ?t) = True \<and>
     state (snd (snd (mmcSequentialRead ex_cfg [] ?t))) = MMC_READY \<and>
     spi_pos (snd (snd (mmcSequentialRead ex_cfg [] ?t))) = 3"
    by (simp add: ex_sys_def ex_cfg_def)
  from wait_timeout_results [OF u, of ?q ex_cfg "[]"]
  have 2: "fst (recvr1 ?q) \<noteq> 0xFF \<and> fst (mmcSequentialRead ex_cfg [] ?u) = False"
    unfolding if_not_P [OF q] if_not_P [OF nu] by blast
  from 1 2 show ?thesis by simp
qed

subsection \<open>The insertion monitor\<close>

lemma tmrfunc_vt: "vt (tmrfunc cfg ins t) = Some (MMC_POLLING_DELAY_ST cfg)"
  by (simp add: tmrfunc_def Let_def chVTSetI_def chSysUnlockFromIsr_def)

lemma tmrfunc_runs_snoc:
  "tmrfunc_runs cfg (obs @ [ob]) s = tmrfunc cfg ob (tmrfunc_runs cfg obs s)"
  by (simp add: tmrfunc_runs_def)

lemma tmrfunc_state_cnt:
  "state (tmrfunc cfg ins t) =
     (if cnt t > 0 then (if ins \<and> cnt t = 1 then MMC_INSERTED else state t)
      else (if ins then state t else MMC_WAIT))"
  "cnt (tmrfunc cfg ins t) =
     (if cnt t > 0 then (if ins then cnt t - 1 else MMC_POLLING_INTERVAL cfg)
      else (if ins then cnt t else MMC_POLLING_INTERVAL cfg))"
  by (auto simp: tmrfunc_def Let_def chVTSetI_def chSysUnlockFromIsr_def chSysLockFromIsr_def
      chEvtBroadcastI_def)

lemma debounce_inv_step:
  assumes "debounce_inv (MMC_POLLING_INTERVAL cfg) obs t"
  shows "debounce_inv (MMC_POLLING_INTERVAL cfg) (obs @ [ob]) (tmrfunc cfg ob t)"
proof -
  let ?N = "MMC_POLLING_INTERVAL cfg"
  from assms consider
    (w) "state t = MMC_WAIT" "cnt t \<le> ?N" "0 < ?N \<longrightarrow> 0 < cnt t"
        "take (?N - cnt t) (rev obs) = replicate (?N - cnt t) True"
    | (i) "state t = MMC_INSERTED" "cnt t = 0" "0 < ?N"
    unfolding debounce_inv_def by auto
  then show ?thesis
  proof cases
    case w
    show ?thesis
    proof (cases "cnt t > 0 \<and> ob")
      case True
      then have "?N - (cnt t - 1) = Suc (?N - cnt t)" using w(2) by simp
      with True w show ?thesis
        by (auto simp: debounce_inv_def tmrfunc_state_cnt)
    next
      case False
      with w show ?thesis
        by (auto simp: debounce_inv_def tmrfunc_state_cnt)
    qed
  next
    case i
    then show ?thesis
      by (auto simp: debounce_inv_def tmrfunc_state_cnt)
  qed
qed

lemma debounce_inv_runs:
  assumes "state s0 = MMC_WAIT" "cnt s0 = MMC_POLLING_INTERVAL cfg"
  shows "debounce_inv (MMC_POLLING_INTERVAL cfg) obs (tmrfunc_runs cfg obs s0)"
proof (induction obs rule: rev_induct)
  case Nil
  from assms show ?case by (simp add: debounce_inv_def tmrfunc_runs_def)
next
  case (snoc ob obs)
  from debounce_inv_step [OF snoc.IH] show ?case by (simp add: tmrfunc_runs_snoc)
qed

lemma debounce_transition:
  assumes "debounce_inv (MMC_POLLING_INTERVAL cfg) obs t"
    and "state t = MMC_WAIT" and "state (tmrfunc cfg ob t) = MMC_INSERTED"
  shows "take (MMC_POLLING_INTERVAL cfg) (rev (obs @ [ob])) = replicate (MMC_POLLING_INTERVAL cfg) True"
proof -
  let ?N = "MMC_POLLING_INTERVAL cfg"
  from assms(2,3) have c: "cnt t = 1" and ob: ob
    by (auto simp: tmrfunc_state_cnt split: if_splits)
  from assms(1,2) c have "1 \<le> ?N" and "take (?N - 1) (rev obs) = replicate (?N - 1) True"
    by (auto simp: debounce_inv_def)
  then obtain m where "?N = Suc m" and "take m (rev obs) = replicate m True"
    by (cases ?N) auto
  with ob show ?thesis by simp
qed

lemma tmrfunc_runs_vt:
  "vt s = Some (MMC_POLLING_DELAY_ST cfg) \<Longrightarrow>
   vt (tmrfunc_runs cfg obs s) = Some (MMC_POLLING_DELAY_ST cfg)"
  by (induction obs rule: rev_induct) (simp_all add: tmrfunc_runs_snoc tmrfunc_vt tmrfunc_runs_def)

lemma mmcStart_result:
  assumes "mmcStart cfg cfgp s = Inr s0"
  shows "state s0 = MMC_WAIT" "cnt s0 = MMC_POLLING_INTERVAL cfg"
    "vt s0 = Some (MMC_POLLING_DELAY_ST cfg)"
  using assms
  by (auto simp: mmcStart_def Let_def chSysLock_def chSysUnlock_def chVTSetI_def split: if_splits)

lemma mmcStop_result:
  assumes "mmcStop cfg t = Inr t'"
  shows "state t' = MMC_STOP" "vt t' = (if state t = MMC_STOP then vt t else None)"
  using assms
  by (auto simp: mmcStop_def Let_def chSysLock_def chSysUnlock_def chVTResetI_def spiStop_def
      split: if_splits)

lemma tmrfunc_runs_all_inserted:
  assumes "state t = MMC_WAIT" "cnt t = Suc k"
  shows "state (tmrfunc_runs cfg (replicate k True) t) = MMC_WAIT \<and>
         cnt (tmrfunc_runs cfg (replicate k True) t) = 1"
  using assms
proof (induction k arbitrary: t)
  case 0
  then show ?case by (simp add: tmrfunc_runs_def)
next
  case (Suc k)
  have "state (tmrfunc cfg True t) = MMC_WAIT" "cnt (tmrfunc cfg True t) = Suc k"
    using Suc.prems by (simp_all add: tmrfunc_state_cnt)
  from Suc.IH [OF this] show ?case by (simp add: tmrfunc_runs_def)
qed


text \<open>
  Claim C10. Every run of \<^verbatim>\<open>tmrfunc\<close> ends with the timer armed for
  \<^verbatim>\<open>MS2ST(MMC_POLLING_DELAY)\<close>, whatever branch it took. So after \<^verbatim>\<open>mmcStart\<close> the
  timer is armed and stays armed over any sequence of callback runs; \<^verbatim>\<open>mmcStop\<close>
  leaves the driver in \<^verbatim>\<open>MMC_STOP\<close> and resets the timer unless the driver was in
  \<^verbatim>\<open>MMC_STOP\<close> already. Over the callback runs that follow \<^verbatim>\<open>mmcStart\<close>, a step from
  \<^verbatim>\<open>MMC_WAIT\<close> to \<^verbatim>\<open>MMC_INSERTED\<close> happens only when the last
  \<^verbatim>\<open>MMC_POLLING_INTERVAL\<close> observations all reported the card inserted, and that many
  inserted observations in a row (at least one) do reach \<^verbatim>\<open>MMC_INSERTED\<close>.
\<close>

theorem tmrfunc_rearms_timer:
  assumes "mmcStart cfg cfgp s = Inr s0" and "mmcStop cfg t = Inr t'"
  shows "vt (tmrfunc cfg ins r) = Some (MMC_POLLING_DELAY_ST cfg) \<and>
         vt s0 = Some (MMC_POLLING_DELAY_ST cfg) \<and>
         vt (tmrfunc_runs cfg obs s0) = Some (MMC_POLLING_DELAY_ST cfg) \<and>
         state t' = MMC_STOP \<and> vt t' = (if state t = MMC_STOP then vt t else None) \<and>
         (state (tmrfunc_runs cfg obs s0) = MMC_WAIT \<and>
          state (tmrfunc_runs cfg (obs @ [ob]) s0) = MMC_INSERTED \<longrightarrow>
            take (MMC_POLLING_INTERVAL cfg) (rev (obs @ [ob])) =
            replicate (MMC_POLLING_INTERVAL cfg) True) \<and>
         (0 < MMC_POLLING_INTERVAL cfg \<longrightarrow>
            state (tmrfunc_runs cfg (replicate (MMC_POLLING_INTERVAL cfg) True) s0) = MMC_INSERTED)"
proof -
  note st = mmcStart_result [OF assms(1)]
  have 1: "vt (tmrfunc cfg ins r) = Some (MMC_POLLING_DELAY_ST cfg)"
    by (rule tmrfunc_vt)
  have 2: "vt (tmrfunc_runs cfg obs s0) = Some (MMC_POLLING_DELAY_ST cfg)"
    by (rule tmrfunc_runs_vt [OF st(3)])
  have 3: "take (MMC_POLLING_INTERVAL cfg) (rev (obs @ [ob])) =
            replicate (MMC_POLLING_INTERVAL cfg) True"
    if "state (tmrfunc_runs cfg obs s0) = MMC_WAIT"
      and "state (tmrfunc_runs cfg (obs @ [ob]) s0) = MMC_INSERTED"
    using debounce_transition [OF debounce_inv_runs [OF st(1,2)], of obs ob] that
    by (simp add: tmrfunc_runs_snoc)
  have 4: "state (tmrfunc_runs cfg (replicate (MMC_POLLING_INTERVAL cfg) True) s0) = MMC_INSERTED"
    if "0 < MMC_POLLING_INTERVAL cfg"
  proof -
    from that obtain k where k: "MMC_POLLING_INTERVAL cfg = Suc k"
      by (cases "MMC_POLLING_INTERVAL cfg") auto
    have "replicate (Suc k) True = replicate k True @ [True]"
      by (simp add: replicate_append_same)
    with tmrfunc_runs_all_inserted [of s0 k cfg] st(1,2) k show ?thesis
      by (simp add: tmrfunc_runs_snoc tmrfunc_state_cnt del: replicate_Suc)
  qed
  from 1 2 3 4 st(3) mmcStop_result [OF assms(2)] show ?thesis by blast
qed

theorem tmrfunc_rearms_timer_witness:
  "vt (tmrfunc ex_cfg False (ex_sys MMC_READY (\<lambda>n. 0))) = Some 10 \<and>
   vt (tmrfunc_runs ex_cfg [False, True]
        ((ex_sys MMC_STOP (\<lambda>n. 0))\<lparr>state := MMC_WAIT, cnt := 2, vt := Some 10,
            klog := [(VTSetI 10, True)]\<rparr>)) = Some 10 \<and>
   vt ((ex_sys MMC_READY (\<lambda>n. 0))\<lparr>state := MMC_STOP, klog := [(VTResetI, True)],
          spi_running := False\<rparr>) = None \<and>
   state (tmrfunc_runs ex_cfg [False, True]
        ((ex_sys MMC_STOP (\<lambda>n. 0))\<lparr>state := MMC_WAIT, cnt := 2, vt := Some 10,
            klog := [(VTSetI 10, True)]\<rparr>)) = MMC_WAIT \<and>
   state (tmrfunc_runs ex_cfg ([False, True] @ [True])
        ((ex_sys MMC_STOP (\<lambda>n. 0))\<lparr>state := MMC_WAIT, cnt := 2, vt := Some 10,
            klog := [(VTSetI 10, True)]\<rparr>)) = MMC_INSERTED \<and>
   take 2 (rev ([False, True] @ [True])) = replicate 2 True"
proof -
  let ?z = "ex_sys MMC_STOP (\<lambda>n. 0)"
  let ?a = "?z\<lparr>state := MMC_WAIT, cnt := 2, vt := Some 10, klog := [(VTSetI 10, True)]\<rparr>"
  let ?t = "ex_sys MMC_READY (\<lambda>n. 0)"
  let ?t' = "?t\<lparr>state := MMC_STOP, klog := [(VTResetI, True)], spi_running := False\<rparr>"
  have a: "mmcStart ex_cfg None ?z = Inr ?a"
    by (simp add: mmcStart_def Let_def ex_cfg_def ex_sys_def chSysLock_def chSysUnlock_def
        chVTSetI_def)
  have b: "mmcStop ex_cfg ?t = Inr ?t'"
    by (simp add: mmcStop_def Let_def ex_cfg_def ex_sys_def chSysLock_def chSysUnlock_def
        chVTResetI_def spiStop_def)
  have w: "state (tmrfunc_runs ex_cfg [False, True] ?a) = MMC_WAIT"
    and i: "state (tmrfunc_runs ex_cfg ([False, True] @ [True]) ?a) = MMC_INSERTED"
    by (simp_all add: tmrfunc_runs_def tmrfunc_state_cnt ex_cfg_def ex_sys_def)
  from tmrfunc_rearms_timer [OF a b, where ins = False and obs = "[False, True]" and ob = True
      and r = "ex_sys MMC_READY (\<lambda>n. 0)"] w i
  have "vt (tmrfunc ex_cfg False ?t) = Some 10 \<and>
     vt (tmrfunc_runs ex_cfg [False, True] ?a) = Some 10 \<and>
     vt ?t' = None \<and> take 2 (rev ([False, True] @ [True])) = replicate 2 True"
    by (simp add: ex_cfg_def ex_sys_def)
  with w i show ?thesis by blast
qed

section \<open>Properties of the Cortex-M ports\<close>

subsection \<open>Words of a saved context\<close>

lemma word4_mult_neq_0:
  "0 < k \<Longrightarrow> k < 2 ^ 30 \<Longrightarrow> (4 :: u32) * of_nat k \<noteq> 0"
proof -
  assume "0 < k" "k < 2 ^ 30"
  then have "0 < 4 * k" "4 * k < 2 ^ LENGTH(32)" by simp_all
  then have "(of_nat (4 * k) :: u32) \<noteq> 0" by (rule of_nat_neq_0)
  then show ?thesis by simp
qed

lemma frame_addr_inj:
  assumes "i < 2 ^ 30" "j < 2 ^ 30" "(a :: u32) + 4 * of_nat i = a + 4 * of_nat j"
  shows "i = j"
proof (rule ccontr)
  assume ne: "i \<noteq> j"
  have *: "False" if lt: "p < q" and q: "q < 2 ^ 30" and eq: "(4 :: u32) * of_nat p = 4 * of_nat q"
    for p q :: nat
  proof -
    from lt have "of_nat q = (of_nat p :: u32) + of_nat (q - p)"
      by (metis le_add_diff_inverse less_imp_le_nat of_nat_add)
    with eq have "(4 :: u32) * of_nat (q - p) = 0" by (simp add: algebra_simps)
    moreover from lt q have "0 < q - p" "q - p < 2 ^ 30" by simp_all
    ultimately show False using word4_mult_neq_0 by blast
  qed
  from assms(3) have eq: "(4 :: u32) * of_nat i = 4 * of_nat j" by simp
  from ne consider "i < j" | "j < i" by linarith
  then show False
    using * [of i j] * [of j i] assms(1,2) eq by cases simp_all
qed

lemma stm_outside:
  "x \<notin> (\<lambda>i. a + 4 * of_nat i) ` {..<length vs} \<Longrightarrow> stm a vs m x = m x"
proof (induction vs arbitrary: a m)
  case Nil
  then show ?case by simp
next
  case (Cons v vs)
  have "x \<noteq> a" using Cons.prems by (force simp: image_iff intro: bexI [of _ 0])
  moreover have "x \<notin> (\<lambda>i. (a + 4) + 4 * of_nat i) ` {..<length vs}"
  proof
    assume "x \<in> (\<lambda>i. (a + 4) + 4 * of_nat i) ` {..<length vs}"
    then obtain i where "i < length vs" "x = (a + 4) + 4 * of_nat i" by auto
    then have "Suc i < length (v # vs)" "x = a + 4 * of_nat (Suc i)"
      by (simp_all add: algebra_simps)
    with Cons.prems show False by (metis imageI lessThan_iff)
  qed
  ultimately have "stm (a + 4) vs (m(a := v)) x = (m(a := v)) x" and "(m(a := v)) x = m x"
    by (simp_all add: Cons.IH)
  then show ?case by simp
qed

lemma stm_inside:
  "i < length vs \<Longrightarrow> length vs < 2 ^ 30 \<Longrightarrow> stm a vs m (a + 4 * of_nat i) = vs ! i"
proof (induction vs arbitrary: a m i)
  case Nil
  then show ?case by simp
next
  case (Cons v vs)
  show ?case
  proof (cases i)
    case 0
    have "a \<notin> (\<lambda>i. (a + 4) + 4 * of_nat i) ` {..<length vs}"
    proof
      assume "a \<in> (\<lambda>i. (a + 4) + 4 * of_nat i) ` {..<length vs}"
      then obtain j where j: "j < length vs" "a = (a + 4) + 4 * of_nat j" by auto
      then have "a + 4 * of_nat 0 = a + 4 * of_nat (Suc j)" by (simp add: algebra_simps)
      with frame_addr_inj [of 0 "Suc j" a] j(1) Cons.prems(2) show False by simp
    qed
    from stm_outside [OF this] 0 show ?thesis by simp
  next
    case (Suc k)
    with Cons.prems have "k < length vs" "length vs < 2 ^ 30" by simp_all
    from Cons.IH [OF this, of "a + 4" "m(a := v)"]
    have "stm (a + 4) vs (m(a := v)) (a + 4 + 4 * of_nat k) = vs ! k" .
    moreover have "a + 4 + 4 * of_nat k = a + 4 * of_nat (Suc k)" by (simp add: algebra_simps)
    ultimately show ?thesis using Suc by simp
  qed
qed

lemma ldm_outside: "r \<notin> set rs \<Longrightarrow> ldm a rs m rf r = rf r"
  by (induction rs arbitrary: a rf) auto

lemma ldm_inside:
  "distinct rs \<Longrightarrow> i < length rs \<Longrightarrow> ldm a rs m rf (rs ! i) = m (a + 4 * of_nat i)"
proof (induction rs arbitrary: a rf i)
  case Nil
  then show ?case by simp
next
  case (Cons r rs)
  show ?case
  proof (cases i)
    case 0
    with Cons.prems show ?thesis by (simp add: ldm_outside)
  next
    case (Suc k)
    with Cons.prems have "distinct rs" "k < length rs" by simp_all
    from Cons.IH [OF this, of "a + 4" "rf(r := m a)"]
    have "ldm (a + 4) rs m (rf(r := m a)) (rs ! k) = m (a + 4 + 4 * of_nat k)" .
    moreover have "a + 4 + 4 * of_nat k = a + 4 * of_nat (Suc k)" by (simp add: algebra_simps)
    ultimately show ?thesis using Suc by simp
  qed
qed

declare stm.simps [simp del] ldm.simps [simp del]

lemma set_frame: "set (frame a n) = (\<lambda>i. a + 4 * of_nat i) ` {..<n}"
  by (simp add: frame_def atLeast0LessThan)

lemma frame_member: "i < n \<Longrightarrow> a + 4 * of_nat i \<in> set (frame a n)"
  by (simp add: set_frame)

lemma stm_frame_outside: "x \<notin> set (frame a (length vs)) \<Longrightarrow> stm a vs m x = m x"
  by (simp add: set_frame stm_outside)

lemma frame_lower: "n \<le> k \<Longrightarrow> set (frame a n) \<subseteq> set (frame a k)"
  by (auto simp: set_frame)

lemma frame_upper: "set (frame (a + 4 * of_nat n) k) \<subseteq> set (frame a (n + k))"
proof
  fix x assume "x \<in> set (frame (a + 4 * of_nat n) k)"
  then obtain i where "i < k" "x = a + 4 * of_nat n + 4 * of_nat i" by (auto simp: set_frame)
  then have "n + i < n + k" "x = a + 4 * of_nat (n + i)" by (simp_all add: algebra_simps)
  then show "x \<in> set (frame a (n + k))" unfolding set_frame by blast
qed

subsection \<open>The context switch of chcore_v7m.c\<close>

lemma port_switch_closed:
  "port_switch cfg s =
     Jump (s\<lparr>mem := switch_mem cfg s,
             regs := (ldm (switch_mem cfg s (regs s 0 + 12)) [4, 5, 6, 7, 8, 9, 10, 11, PC]
                        (switch_mem cfg s)
                        ((regs s)(SP := switch_mem cfg s (regs s 0 + 12))))
                     (SP := switch_mem cfg s (regs s 0 + 12) + 36)\<rparr>)"
  by (simp add: port_switch_def PUSH_CONTEXT_def POP_CONTEXT_def push_def pop_def vpush_def
      str_def ldr_def Let_def switch_mem_def ctx_base_def)

lemma switch_mem_ctx: "switch_mem cfg s (regs s 1 + 12) = ctx_base cfg s"
  by (simp add: switch_mem_def)

lemma switch_mem_outside:
  assumes "x \<noteq> regs s 1 + 12" and "x \<notin> set (frame (ctx_base cfg s) (ctx_words cfg))"
  shows "switch_mem cfg s x = mem s x"
proof -
  define vs where "vs = map (regs s) [4, 5, 6, 7, 8, 9, 10, 11, LR]"
  define ws where "ws = map (sregs s) [16 ..< 32]"
  have len: "length vs = 9" "length ws = 16" by (simp_all add: vs_def ws_def)
  show ?thesis
  proof (cases "CORTEX_USE_FPU cfg")
    case False
    then have sm: "switch_mem cfg s = (stm (ctx_base cfg s) vs (mem s))(regs s 1 + 12 := ctx_base cfg s)"
      by (simp add: switch_mem_def vs_def)
    from False assms(2) have "x \<notin> set (frame (ctx_base cfg s) (length vs))"
      by (simp add: ctx_words_def len)
    from stm_frame_outside [OF this] assms(1) show ?thesis by (simp add: sm)
  next
    case True
    let ?a = "regs s SP - 100"
    from True have sm: "switch_mem cfg s =
        (stm ?a vs (stm (regs s SP - 64) ws (mem s)))(regs s 1 + 12 := ?a)"
      by (simp add: switch_mem_def vs_def ws_def ctx_base_def)
    from True assms(2) have out: "x \<notin> set (frame ?a 25)"
      by (simp add: ctx_base_def ctx_words_def)
    have "?a + 4 * of_nat 9 = regs s SP - 64" by simp
    with frame_upper [of ?a 9 16] have "set (frame (regs s SP - 64) 16) \<subseteq> set (frame ?a 25)"
      by simp
    with out have "x \<notin> set (frame (regs s SP - 64) (length ws))" by (auto simp: len)
    note 1 = stm_frame_outside [OF this]
    from frame_lower [of 9 25 ?a] out have "x \<notin> set (frame ?a (length vs))" by (auto simp: len)
    note 2 = stm_frame_outside [OF this]
    from assms(1) 1 2 show ?thesis by (simp add: sm)
  qed
qed

lemma switch_mem_frame:
  assumes "i < 9" and "regs s 1 + 12 \<notin> set (frame (ctx_base cfg s) 9)"
  shows "switch_mem cfg s (ctx_base cfg s + 4 * of_nat i) =
           map (regs s) [4, 5, 6, 7, 8, 9, 10, 11, LR] ! i"
proof -
  define vs where "vs = map (regs s) [4, 5, 6, 7, 8, 9, 10, 11, LR]"
  define M where "M = (if CORTEX_USE_FPU cfg
         then stm (regs s SP - 64) (map (sregs s) [16 ..< 32]) (mem s) else mem s)"
  have len: "length vs = 9" by (simp add: vs_def)
  have sm: "switch_mem cfg s = (stm (ctx_base cfg s) vs M)(regs s 1 + 12 := ctx_base cfg s)"
    unfolding switch_mem_def vs_def M_def ..
  from assms(1) have "ctx_base cfg s + 4 * of_nat i \<in> set (frame (ctx_base cfg s) 9)"
    by (rule frame_member)
  with assms(2) have ne: "ctx_base cfg s + 4 * of_nat i \<noteq> regs s 1 + 12" by metis
  have "stm (ctx_base cfg s) vs M (ctx_base cfg s + 4 * of_nat i) = vs ! i"
    using assms(1) by (intro stm_inside) (simp_all add: len)
  with ne have "switch_mem cfg s (ctx_base cfg s + 4 * of_nat i) = vs ! i"
    by (simp add: sm)
  then show ?thesis unfolding vs_def .
qed

text \<open>
  Switching in a thread whose saved context the running thread does not overwrite:
  r4 to r11 and the program counter receive the nine words of the context, and the stack
  pointer ends just above them.
\<close>

lemma port_switch_in:
  assumes ctx: "mem t (regs t 0 + 12) = c"
    and area: "\<forall>x \<in> insert (regs t 0 + 12) (set (frame c 9)).
                 x \<noteq> regs t 1 + 12 \<and> x \<notin> set (frame (ctx_base cfg t) (ctx_words cfg))"
    and i: "i < 9"
  shows "\<exists>t'. port_switch cfg t = Jump t' \<and> regs t' SP = c + 36 \<and>
           regs t' ([4, 5, 6, 7, 8, 9, 10, 11, PC] ! i) = mem t (c + 4 * of_nat i) \<and>
           sregs t' = sregs t \<and> trace t' = trace t \<and> basepri t' = basepri t \<and>
           primask t' = primask t"
proof -
  define rs :: "nat list" where "rs = [4, 5, 6, 7, 8, 9, 10, 11, PC]"
  have len: "length rs = 9" "distinct rs" by (simp_all add: rs_def)
  from area have "switch_mem cfg t (regs t 0 + 12) = mem t (regs t 0 + 12)"
    by (intro switch_mem_outside) auto
  with ctx have c: "switch_mem cfg t (regs t 0 + 12) = c" by simp
  from i have "c + 4 * of_nat i \<in> set (frame c 9)" by (rule frame_member)
  with area have w: "switch_mem cfg t (c + 4 * of_nat i) = mem t (c + 4 * of_nat i)"
    by (intro switch_mem_outside) auto
  from i have "rs ! i \<noteq> SP" by (auto simp: rs_def nth_Cons')
  with i w have "((ldm c rs (switch_mem cfg t) ((regs t)(SP := c)))(SP := c + 36)) (rs ! i) =
      mem t (c + 4 * of_nat i)"
    by (simp add: ldm_inside len)
  with port_switch_closed [of cfg t] c show ?thesis
    by (simp add: rs_def)
qed

text \<open>
  The round trip: thread A switches out (state \<^verbatim>\<open>s\<close>), and a later switch (state
  \<^verbatim>\<open>t\<close>) names A's thread structure as the thread to switch in. What ran in between
  left A's saved context and context pointer as the first switch wrote them, and the
  thread switching out in \<^verbatim>\<open>t\<close> saves its context elsewhere. Then r4 to r11 are
  back, execution resumes at A's link register, and the stack pointer is A's stack
  pointer, less 64 bytes when the FPU context is part of the switch.
\<close>

lemma port_switch_roundtrip:
  assumes out: "port_switch cfg s = Jump s1"
    and A_ctx: "regs s 1 + 12 \<notin> set (frame (ctx_base cfg s) 9)"
    and kept: "\<forall>x \<in> insert (regs s 1 + 12) (set (frame (ctx_base cfg s) 9)). mem t x = mem s1 x"
    and ntp: "regs t 0 = regs s 1"
    and B_area: "\<forall>x \<in> insert (regs s 1 + 12) (set (frame (ctx_base cfg s) 9)).
                   x \<noteq> regs t 1 + 12 \<and> x \<notin> set (frame (ctx_base cfg t) (ctx_words cfg))"
  shows "\<exists>s2. port_switch cfg t = Jump s2 \<and> (\<forall>r \<in> {4 .. 11}. regs s2 r = regs s r) \<and>
           regs s2 PC = regs s LR \<and>
           regs s2 SP = regs s SP - (if CORTEX_USE_FPU cfg then 64 else 0)"
proof -
  define c where "c = ctx_base cfg s"
  define vs where "vs = map (regs s) [4, 5, 6, 7, 8, 9, 10, 11, LR]"
  define rs :: "nat list" where "rs = [4, 5, 6, 7, 8, 9, 10, 11, PC]"
  from out port_switch_closed [of cfg s] have s1: "mem s1 = switch_mem cfg s" by auto
  have tc: "mem t (regs t 0 + 12) = c"
    using kept s1 ntp switch_mem_ctx [of cfg s] by (simp add: c_def)
  have tw: "mem t (c + 4 * of_nat i) = vs ! i" if "i < 9" for i
  proof -
    from that have "c + 4 * of_nat i \<in> set (frame c 9)" by (rule frame_member)
    with kept s1 have "mem t (c + 4 * of_nat i) = switch_mem cfg s (c + 4 * of_nat i)"
      by (simp add: c_def)
    with switch_mem_frame [OF that A_ctx] show ?thesis by (simp add: c_def vs_def)
  qed
  have area: "\<forall>x \<in> insert (regs t 0 + 12) (set (frame c 9)).
                 x \<noteq> regs t 1 + 12 \<and> x \<notin> set (frame (ctx_base cfg t) (ctx_words cfg))"
    using B_area ntp by (simp add: c_def)
  from port_switch_closed [of cfg t] obtain s2 where sw: "port_switch cfg t = Jump s2" by blast
  have get: "regs s2 SP = c + 36 \<and> regs s2 (rs ! i) = vs ! i" if "i < 9" for i
    using port_switch_in [OF tc area that] sw tw [OF that] by (auto simp: rs_def)
  have r: "\<forall>r \<in> {4 .. 11}. regs s2 r = regs s r"
  proof
    fix r :: nat assume "r \<in> {4 .. 11}"
    then have "r = 4 \<or> r = 5 \<or> r = 6 \<or> r = 7 \<or> r = 8 \<or> r = 9 \<or> r = 10 \<or> r = 11"
      by auto
    then show "regs s2 r = regs s r"
      using get [of 0] get [of 1] get [of 2] get [of 3] get [of 4] get [of 5] get [of 6] get [of 7]
      by (elim disjE) (simp_all add: rs_def vs_def)
  qed
  have pc: "regs s2 PC = regs s LR" using get [of 8] by (simp add: rs_def vs_def)
  have sp: "regs s2 SP = regs s SP - (if CORTEX_USE_FPU cfg then 64 else 0)"
    using get [of 0] by (simp add: c_def ctx_base_def)
  from sw r pc sp show ?thesis by blast
qed

lemmas port_eval_defs =
  port_switch_def PUSH_CONTEXT_def POP_CONTEXT_def push_def pop_def vpush_def vpop_def
  str_def ldr_def mov_def Let_def unflow_def stm.simps ldm.simps

text \<open>
  Claim C1. Switching from thread A to thread B and later from B to A restores A's
  r4 to r11, link register and stack pointer. The lemma above proves it for
  chcore_v7m.c built without the FPU (the saved link register returns as the program
  counter). Built with \<^verbatim>\<open>CORTEX_USE_FPU\<close>, \<^verbatim>\<open>POP_CONTEXT\<close> pops the program counter
  before \<^verbatim>\<open>vpop {s16-s31}\<close>, so the \<^verbatim>\<open>vpop\<close> never runs: A's registers r4 to r11 and
  its return address come back, its stack pointer comes back 64 bytes too low. The
  theorem runs the round trip on one input: stack pointer 0x20001000 before, 0x20000FC0
  after with the FPU, 0x20001000 after without it and in the v6-M port.
\<close>

theorem port_switch_fpu_roundtrip:
  "regs ex_A_out SP = 0x20001000 \<and>
   regs (ex_roundtrip (ex_port True False)) SP = 0x20000FC0 \<and>
   regs (ex_roundtrip (ex_port True False)) 4 = 0xA4 \<and>
   regs (ex_roundtrip (ex_port True False)) PC = 0x08000101 \<and>
   regs (ex_roundtrip (ex_port False False)) SP = 0x20001000 \<and>
   regs ex_roundtrip_v6m SP = 0x20001000"
proof (intro conjI)
  show "regs ex_A_out SP = 0x20001000"
    by (simp add: ex_A_out_def ex_cpu_def)
  show "regs (ex_roundtrip (ex_port True False)) SP = 0x20000FC0"
    by (simp add: ex_roundtrip_def ex_port_def ex_cpu_def ex_A_out_def ex_B_out_def port_eval_defs)
  show "regs (ex_roundtrip (ex_port True False)) 4 = 0xA4"
    by (simp add: ex_roundtrip_def ex_port_def ex_cpu_def ex_A_out_def ex_B_out_def port_eval_defs)
  show "regs (ex_roundtrip (ex_port True False)) PC = 0x08000101"
    by (simp add: ex_roundtrip_def ex_port_def ex_cpu_def ex_A_out_def ex_B_out_def port_eval_defs)
  show "regs (ex_roundtrip (ex_port False False)) SP = 0x20001000"
    by (simp add: ex_roundtrip_def ex_port_def ex_cpu_def ex_A_out_def ex_B_out_def port_eval_defs)
  show "regs ex_roundtrip_v6m SP = 0x20001000"
    by (simp add: ex_roundtrip_v6m_def port_switch_v6m_def ex_cpu_def ex_A_out_def ex_B_out_def
        port_eval_defs)
qed

subsection \<open>The System Lock\<close>

text \<open>
  Claim C6. \<^verbatim>\<open>_port_lock\<close> sets BASEPRI to the kernel level and leaves PRIMASK as
  it is. The lock is not recursive: the acquire of a pair is made where the lock is not
  held. Then \<^verbatim>\<open>_port_unlock\<close> restores the interrupt state: after the pair BASEPRI
  and PRIMASK are what they were before the acquire.
\<close>

theorem port_lock_unlock_restores:
  assumes "\<not> CORTEX_SIMPLIFIED_PRIORITY cfg" and "unlocked cfg s"
  shows "basepri (port_lock cfg s) = CORTEX_BASEPRI_KERNEL cfg \<and>
         primask (port_lock cfg s) = primask s \<and>
         basepri (port_unlock cfg (port_lock cfg s)) = basepri s \<and>
         primask (port_unlock cfg (port_lock cfg s)) = primask s"
  using assms by (simp add: port_lock_def port_unlock_def unlocked_def)

theorem port_lock_unlock_restores_witness:
  "unlocked (ex_port False False) ex_isr \<and> basepri ex_isr = 0 \<and>
   basepri (port_lock (ex_port False False) ex_isr) = 0x40 \<and>
   basepri (port_unlock (ex_port False False) (port_lock (ex_port False False) ex_isr)) = 0 \<and>
   primask (port_unlock (ex_port False False) (port_lock (ex_port False False) ex_isr)) = False"
  using port_lock_unlock_restores [of "ex_port False False" ex_isr]
  by (simp add: unlocked_def ex_port_def ex_isr_def ex_cpu_def)

lemma log_simps [simp]:
  "trace (log e s) = trace s @ [(e, basepri s, primask s)]"
  "basepri (log e s) = basepri s" "primask (log e s) = primask s" "mem (log e s) = mem s"
  "regs (log e s) = regs s" "scb_icsr (log e s) = scb_icsr s"
  by (simp_all add: log_def)

subsection \<open>The interrupt epilogue\<close>

text \<open>
  Claim C3. \<^verbatim>\<open>_port_irq_epilogue\<close> acquires the lock. When the exception returns to
  thread mode (\<^verbatim>\<open>RETTOBASE\<close> set) it returns with the lock held and without a call of
  the scheduler; the exception return takes the program counter from the context it
  pushed, which is \<^verbatim>\<open>_port_switch_from_isr\<close>. There the preemption check and the
  reschedule are called with the lock held (every entry of the trace up to the
  \<^verbatim>\<open>svc\<close> carries the masks the epilogue left), and the run ends with the lock
  released: by \<^verbatim>\<open>SVCallVector\<close>, or by \<^verbatim>\<open>port_unlock()\<close> before PendSV in the
  simplified priority build. Otherwise the epilogue releases the lock itself.
\<close>

theorem irq_epilogue_keeps_lock:
  "if (scb_icsr s AND ICSR_RETTOBASE cfg) \<noteq> 0
   then locked cfg (port_irq_epilogue cfg s) \<and>
        trace (port_irq_epilogue cfg s) = trace s \<and>
        regs (exception_return (port_irq_epilogue cfg s)) PC = port_switch_from_isr_entry cfg \<and>
        locked cfg (exception_return (port_irq_epilogue cfg s)) \<and>
        held cfg (basepri (port_irq_epilogue cfg s), primask (port_irq_epilogue cfg s)) \<and>
        added s (port_switch_from_isr cfg ext (exception_return (port_irq_epilogue cfg s))) =
          map (\<lambda>e. (e, basepri (port_irq_epilogue cfg s), primask (port_irq_epilogue cfg s)))
            ((if CH_DBG_SYSTEM_STATE_CHECK cfg then [Dbg_check_lock] else []) @
             [SchIsPreemptionRequired] @
             (if chSchIsPreemptionRequired ext (mem (port_irq_epilogue cfg s)) \<noteq> 0
              then [SchDoReschedule] else []) @
             (if CH_DBG_SYSTEM_STATE_CHECK cfg then [Dbg_check_unlock] else []) @
             (if CORTEX_SIMPLIFIED_PRIORITY cfg then [] else [SVCall])) @
          (if CORTEX_SIMPLIFIED_PRIORITY cfg
           then [(PendSV, basepri (port_irq_epilogue cfg s), False)] else []) \<and>
        unlocked cfg (port_switch_from_isr cfg ext (exception_return (port_irq_epilogue cfg s)))
   else unlocked cfg (port_irq_epilogue cfg s) \<and> trace (port_irq_epilogue cfg s) = trace s"
proof (cases "(scb_icsr s AND ICSR_RETTOBASE cfg) \<noteq> 0")
  case False
  then show ?thesis
    by (simp add: port_irq_epilogue_def port_lock_from_isr_def port_unlock_from_isr_def
        port_lock_macro_def port_unlock_macro_def port_lock_def port_unlock_def unlocked_def)
next
  case True
  define s1 where "s1 = port_irq_epilogue cfg s"
  have icsr: "(scb_icsr (port_lock_from_isr cfg s) AND ICSR_RETTOBASE cfg) \<noteq> 0"
    using True
    by (simp add: port_lock_from_isr_def port_lock_macro_def port_lock_def)
  have l1: "locked cfg s1" and tr1: "trace s1 = trace s"
    using icsr
    by (simp_all add: s1_def port_irq_epilogue_def Let_def port_lock_from_isr_def
        port_lock_macro_def port_lock_def locked_def)
  have pc: "mem s1 (regs s1 SP + 24) = port_switch_from_isr_entry cfg"
    using icsr
    by (simp add: s1_def port_irq_epilogue_def Let_def)
  define s2 where "s2 = exception_return s1"
  have s2: "basepri s2 = basepri s1" "primask s2 = primask s1" "trace s2 = trace s1"
    "mem s2 = mem s1"
    by (simp_all add: s2_def exception_return_def)
  have pc2: "regs s2 PC = port_switch_from_isr_entry cfg"
    using pc by (simp add: s2_def exception_return_def ldm.simps add.commute)
  have l2: "locked cfg s2" using l1 s2 by (simp add: locked_def)
  have h: "held cfg (basepri s1, primask s1)" using l1 by (simp add: locked_def held_def)
  have tr3: "added s (port_switch_from_isr cfg ext s2) =
          map (\<lambda>e. (e, basepri s1, primask s1))
            ((if CH_DBG_SYSTEM_STATE_CHECK cfg then [Dbg_check_lock] else []) @
             [SchIsPreemptionRequired] @
             (if chSchIsPreemptionRequired ext (mem s1) \<noteq> 0 then [SchDoReschedule] else []) @
             (if CH_DBG_SYSTEM_STATE_CHECK cfg then [Dbg_check_unlock] else []) @
             (if CORTEX_SIMPLIFIED_PRIORITY cfg then [] else [SVCall])) @
          (if CORTEX_SIMPLIFIED_PRIORITY cfg then [(PendSV, basepri s1, False)] else [])"
    using s2 tr1
    by (simp add: added_def port_switch_from_isr_def Let_def dbg_check_lock_def
        dbg_check_unlock_def call_chSchIsPreemptionRequired_def call_chSchDoReschedule_def
        exception_return_def exception_entry_def SVCallVector_def PendSVVector_def
        discard_context_def port_unlock_from_isr_def port_unlock_macro_def port_unlock_def)
  have u3: "unlocked cfg (port_switch_from_isr cfg ext s2)"
    by (simp add: unlocked_def port_switch_from_isr_def Let_def
        exception_return_def SVCallVector_def PendSVVector_def
        discard_context_def port_unlock_from_isr_def port_unlock_macro_def port_unlock_def
        exception_entry_def)
  from True l1 tr1 pc2 l2 h tr3 u3 show ?thesis
    unfolding s1_def s2_def by (simp only: if_True simp_thms)
qed


lemma port_switch_from_isr_added:
  "map fst (added s (port_switch_from_isr cfg ext s)) =
     (if CH_DBG_SYSTEM_STATE_CHECK cfg then [Dbg_check_lock] else []) @
     [SchIsPreemptionRequired] @
     (if chSchIsPreemptionRequired ext (mem s) \<noteq> 0 then [SchDoReschedule] else []) @
     (if CH_DBG_SYSTEM_STATE_CHECK cfg then [Dbg_check_unlock] else []) @
     (if CORTEX_SIMPLIFIED_PRIORITY cfg then [PendSV] else [SVCall])"
  by (simp add: added_def port_switch_from_isr_def Let_def dbg_check_lock_def
      dbg_check_unlock_def call_chSchIsPreemptionRequired_def call_chSchDoReschedule_def
      exception_return_def exception_entry_def SVCallVector_def PendSVVector_def
      discard_context_def port_unlock_from_isr_def port_unlock_macro_def port_unlock_def)

lemma port_switch_from_isr_v6m_added:
  "map fst (added s (port_switch_from_isr_v6m cfg ext s)) =
     (if CH_DBG_SYSTEM_STATE_CHECK cfg then [Dbg_check_lock] else []) @
     [SchIsPreemptionRequired] @
     (if chSchIsPreemptionRequired ext (mem s) \<noteq> 0 then [SchDoReschedule] else []) @
     (if CH_DBG_SYSTEM_STATE_CHECK cfg then [Dbg_check_unlock] else [])"
  by (simp add: added_def port_switch_from_isr_v6m_def Let_def dbg_check_lock_def
      dbg_check_unlock_def call_chSchIsPreemptionRequired_def call_chSchDoReschedule_def
      cpsie_i_def)

lemma frame_above:
  assumes "n \<le> j" "j < 2 ^ 30"
  shows "(a :: u32) + 4 * of_nat j \<notin> set (frame a n)"
proof
  assume "a + 4 * of_nat j \<in> set (frame a n)"
  then obtain i where i: "i < n" "a + 4 * of_nat j = a + 4 * of_nat i" by (auto simp: set_frame)
  with assms have "j < 2 ^ 30" "i < 2 ^ 30" by simp_all
  from frame_addr_inj [OF this i(2)] i(1) assms(1) show False by simp
qed

text \<open>
  An exception taken and served by a handler that only discards the stacked context:
  the return unstacks the eight words above it.
\<close>

lemma exception_discarded:
  assumes "regs u SP = regs s SP - 32 + d" and "mem u = mem (exception_entry s)"
    and "d = 32 \<or> d = 40"
  shows "regs (exception_return u) PC = mem s (regs s SP + (d - 32) + 24) \<and>
         regs (exception_return u) SP = regs s SP + (d - 32) + 32"
proof -
  define a where "a = regs s SP - 32"
  define vs where "vs = [regs s 0, regs s 1, regs s 2, regs s 3, regs s 12, regs s LR,
                             regs s PC, xpsr s]"
  define rs :: "nat list" where "rs = [0, 1, 2, 3, 12, LR, PC]"
  have m: "mem u = stm a vs (mem s)"
    using assms(2) by (simp add: exception_entry_def Let_def a_def vs_def)
  have len: "length vs = 8" "distinct rs" "length rs = 7" "rs ! 6 = PC"
    by (simp_all add: vs_def rs_def)
  from assms(3) obtain j where j: "8 \<le> j" "j < 2 ^ 30" "regs u SP + 24 = a + 4 * of_nat j"
  proof
    assume "d = 32"
    with assms(1) have "regs u SP + 24 = a + 4 * of_nat 14" by (simp add: a_def)
    then show ?thesis using that [of 14] by simp
  next
    assume "d = 40"
    with assms(1) have "regs u SP + 24 = a + 4 * of_nat 16" by (simp add: a_def)
    then show ?thesis using that [of 16] by simp
  qed
  from frame_above [OF j(1,2), of a] have "regs u SP + 24 \<notin> set (frame a (length vs))"
    by (simp add: j(3) len)
  from stm_frame_outside [OF this] have w: "mem u (regs u SP + 24) = mem s (regs u SP + 24)"
    by (simp add: m)
  have "ldm (regs u SP) rs (mem u) (regs u) (rs ! 6) = mem u (regs u SP + 4 * of_nat 6)"
    by (rule ldm_inside) (simp_all add: len)
  with w have "ldm (regs u SP) rs (mem u) (regs u) PC = mem s (regs u SP + 24)"
    by (simp add: len)
  then have pc: "regs (exception_return u) PC = mem s (regs u SP + 24)"
    by (simp add: exception_return_def rs_def)
  have sp: "regs (exception_return u) SP = regs u SP + 32"
    by (simp add: exception_return_def)
  from pc sp assms(1) show ?thesis by (simp add: algebra_simps)
qed

lemma port_switch_from_isr_resumes:
  assumes "EXTCTX_SIZE cfg = 32" and "chSchIsPreemptionRequired ext (mem s) = 0"
  shows "regs (port_switch_from_isr cfg ext s) PC =
           mem s (regs s SP + (if CORTEX_USE_FPU cfg then 8 else 0) + 24) \<and>
         regs (port_switch_from_isr cfg ext s) SP =
           regs s SP + (if CORTEX_USE_FPU cfg then 8 else 0) + 32"
proof -
  define d :: u32 where "d = (if CORTEX_USE_FPU cfg then 40 else 32)"
  have d: "d = 32 \<or> d = 40" "d - 32 = (if CORTEX_USE_FPU cfg then 8 else 0)"
    by (simp_all add: d_def)
  define s4 where "s4 = dbg_check_unlock cfg (call_chSchIsPreemptionRequired ext (dbg_check_lock cfg s))"
  have s4: "regs s4 SP = regs s SP" "mem s4 = mem s"
    by (simp_all add: s4_def dbg_check_unlock_def dbg_check_lock_def
        call_chSchIsPreemptionRequired_def Let_def)
  have r0: "regs (call_chSchIsPreemptionRequired ext (dbg_check_lock cfg s)) 0 = 0"
    using assms(2) by (simp add: call_chSchIsPreemptionRequired_def Let_def dbg_check_lock_def)
  show ?thesis
  proof (cases "CORTEX_SIMPLIFIED_PRIORITY cfg")
    case False
    define u where "u = SVCallVector cfg (exception_entry (log SVCall s4))"
    have res: "port_switch_from_isr cfg ext s = exception_return u"
      using False r0 by (simp add: port_switch_from_isr_def Let_def u_def s4_def)
    have 1: "regs u SP = regs (log SVCall s4) SP - 32 + d"
      using assms(1)
      by (simp add: u_def SVCallVector_def discard_context_def Let_def port_unlock_from_isr_def
          port_unlock_macro_def port_unlock_def exception_entry_def Let_def d_def)
    have 2: "mem u = mem (exception_entry (log SVCall s4))"
      by (simp add: u_def SVCallVector_def discard_context_def Let_def port_unlock_from_isr_def
          port_unlock_macro_def port_unlock_def)
    from exception_discarded [OF 1 2 d(1)] s4 show ?thesis
      by (simp add: res d(2))
  next
    case True
    define v where "v = log PendSV (port_unlock_macro cfg (s4\<lparr>scb_icsr := ICSR_PENDSVSET cfg\<rparr>))"
    define u where "u = PendSVVector cfg (exception_entry v)"
    have v: "regs v SP = regs s SP" "mem v = mem s"
      using True s4 by (simp_all add: v_def port_unlock_macro_def)
    have res: "port_switch_from_isr cfg ext s = exception_return u"
      using True r0 by (simp add: port_switch_from_isr_def Let_def u_def v_def s4_def)
    have 1: "regs u SP = regs v SP - 32 + d"
      using assms(1)
      by (simp add: u_def PendSVVector_def discard_context_def Let_def exception_entry_def d_def)
    have 2: "mem u = mem (exception_entry v)"
      by (simp add: u_def PendSVVector_def discard_context_def Let_def)
    from exception_discarded [OF 1 2 d(1)] v show ?thesis
      by (simp add: res d(2))
  qed
qed

text \<open>
  Claim C4. In \<^verbatim>\<open>_port_switch_from_isr\<close>, of chcore_v7m.c and of chcoreasm_v6m.s,
  \<^verbatim>\<open>chSchDoReschedule\<close> is called exactly when \<^verbatim>\<open>chSchIsPreemptionRequired\<close> answered
  a value other than zero. When it answered zero, the routine of chcore_v7m.c ends in
  the exception return that unstacks the interrupted thread's frame (of
  \<^verbatim>\<open>EXTCTX_SIZE\<close> 32 bytes): the program counter is the return address stacked there.
\<close>

theorem reschedule_iff_preemption_required:
  assumes "EXTCTX_SIZE cfg = 32"
  shows "((SchDoReschedule \<in> fst ` set (added s (port_switch_from_isr cfg ext s))) =
            (chSchIsPreemptionRequired ext (mem s) \<noteq> 0)) \<and>
         ((SchDoReschedule \<in> fst ` set (added s (port_switch_from_isr_v6m cfg ext s))) =
            (chSchIsPreemptionRequired ext (mem s) \<noteq> 0)) \<and>
         (chSchIsPreemptionRequired ext (mem s) = 0 \<longrightarrow>
            regs (port_switch_from_isr cfg ext s) PC =
              mem s (regs s SP + (if CORTEX_USE_FPU cfg then 8 else 0) + 24) \<and>
            regs (port_switch_from_isr cfg ext s) SP =
              regs s SP + (if CORTEX_USE_FPU cfg then 8 else 0) + 32)"
proof -
  have "fst ` set (added s (port_switch_from_isr cfg ext s)) =
      set (map fst (added s (port_switch_from_isr cfg ext s)))" by simp
  then have 1: "(SchDoReschedule \<in> fst ` set (added s (port_switch_from_isr cfg ext s))) =
            (chSchIsPreemptionRequired ext (mem s) \<noteq> 0)"
    unfolding port_switch_from_isr_added by simp
  have "fst ` set (added s (port_switch_from_isr_v6m cfg ext s)) =
      set (map fst (added s (port_switch_from_isr_v6m cfg ext s)))" by simp
  then have 2: "(SchDoReschedule \<in> fst ` set (added s (port_switch_from_isr_v6m cfg ext s))) =
            (chSchIsPreemptionRequired ext (mem s) \<noteq> 0)"
    unfolding port_switch_from_isr_v6m_added by simp
  from 1 2 port_switch_from_isr_resumes [OF assms] show ?thesis by blast
qed

lemma call_thread_and_exit_added:
  "added s0 (call_thread_and_exit ext s) =
     added s0 s @ [(ThreadFunction (regs s 4) (regs s 0), basepri s, primask s)] @
     (case thread_code ext (regs s 4) (regs s 0) of
        None \<Rightarrow> []
      | Some v \<Rightarrow> [(ThdExit v, basepri s, primask s)])"
  if "length (trace s0) \<le> length (trace s)"
  using that
  by (simp add: added_def call_thread_and_exit_def Let_def split: option.split)

lemma port_thread_start_added:
  "added s (port_thread_start cfg ext s) =
     (if CH_DBG_SYSTEM_STATE_CHECK cfg then [(Dbg_check_unlock, basepri s, primask s)] else []) @
     [(ThreadFunction (regs s 4) (regs s 5),
       basepri (port_unlock_macro cfg s), primask (port_unlock_macro cfg s))] @
     (case thread_code ext (regs s 4) (regs s 5) of
        None \<Rightarrow> []
      | Some v \<Rightarrow> [(ThdExit v, basepri (port_unlock_macro cfg s), primask (port_unlock_macro cfg s))])"
  by (simp add: added_def port_thread_start_def call_thread_and_exit_def Let_def
      chSysUnlock_port_def dbg_check_unlock_def port_unlock_macro_def port_unlock_def
      mov_def unflow_def split: option.split)

lemma port_thread_start_v6m_added:
  "added s (port_thread_start_v6m cfg ext s) =
     (if CH_DBG_SYSTEM_STATE_CHECK cfg then [(Dbg_check_unlock, basepri s, primask s)] else []) @
     [(ThreadFunction (regs s 4) (regs s 5), basepri s, False)] @
     (case thread_code ext (regs s 4) (regs s 5) of
        None \<Rightarrow> []
      | Some v \<Rightarrow> [(ThdExit v, basepri s, False)])"
  by (simp add: added_def port_thread_start_v6m_def call_thread_and_exit_def Let_def
      dbg_check_unlock_def cpsie_i_def mov_def unflow_def split: option.split)

lemma released_port_unlock_macro:
  "released cfg (basepri (port_unlock_macro cfg s), primask (port_unlock_macro cfg s))"
  by (simp add: released_def port_unlock_macro_def port_unlock_def)

subsection \<open>The context switch of chcoreasm_v6m.s\<close>

lemma run_append:
  "run (xs @ ys) s = (case run xs s of Next s' \<Rightarrow> run ys s' | Jump s' \<Rightarrow> Jump s')"
  by (induction xs arbitrary: s) (auto split: flow.splits)

lemma v6m_save:
  "run [push [4, 5, 6, 7, LR], mov 4 8, mov 5 9, mov 6 10, mov 7 11, push [4, 5, 6, 7],
        mov 3 SP, str 3 1 12] t =
   Next (t\<lparr>mem := switch_mem_v6m t,
           regs := (regs t)(4 := regs t 8, 5 := regs t 9, 6 := regs t 10, 7 := regs t 11,
                            SP := regs t SP - 36, 3 := regs t SP - 36)\<rparr>)"
  by (simp add: push_def mov_def str_def Let_def switch_mem_v6m_def fun_upd_twist)

lemma v6m_restore:
  "\<exists>s'. run [ldr 3 0 12, mov SP 3, pop [4, 5, 6, 7], mov 8 4, mov 9 5, mov 10 6, mov 11 7,
             pop [4, 5, 6, 7, PC]] s = Jump s' \<and>
     regs s' 4 = mem s (mem s (regs s 0 + 12) + 16) \<and>
     regs s' 5 = mem s (mem s (regs s 0 + 12) + 20) \<and>
     regs s' PC = mem s (mem s (regs s 0 + 12) + 32) \<and>
     regs s' SP = mem s (regs s 0 + 12) + 36 \<and>
     mem s' = mem s \<and> trace s' = trace s \<and> basepri s' = basepri s \<and> primask s' = primask s"
  by (simp add: pop_def mov_def ldr_def Let_def ldm.simps add.commute)

lemma switch_mem_v6m_outside:
  assumes "x \<noteq> regs s 1 + 12" and "x \<notin> set (frame (regs s SP - 36) 9)"
  shows "switch_mem_v6m s x = mem s x"
proof -
  define vs where "vs = map (regs s) [4, 5, 6, 7, LR]"
  define ws where "ws = map (regs s) [8, 9, 10, 11]"
  let ?a = "regs s SP - 36"
  have len: "length vs = 5" "length ws = 4" by (simp_all add: vs_def ws_def)
  have sm: "switch_mem_v6m s = (stm ?a ws (stm (regs s SP - 20) vs (mem s)))(regs s 1 + 12 := ?a)"
    by (simp add: switch_mem_v6m_def vs_def ws_def)
  have "?a + 4 * of_nat 4 = regs s SP - 20" by simp
  with frame_upper [of ?a 4 5] have "set (frame (regs s SP - 20) 5) \<subseteq> set (frame ?a 9)"
    by simp
  with assms(2) have "x \<notin> set (frame (regs s SP - 20) (length vs))" by (auto simp: len)
  note 1 = stm_frame_outside [OF this]
  from frame_lower [of 4 9 ?a] assms(2) have "x \<notin> set (frame ?a (length ws))"
    by (auto simp: len)
  note 2 = stm_frame_outside [OF this]
  from assms(1) 1 2 show ?thesis by (simp add: sm)
qed

lemma port_switch_v6m_in:
  assumes ctx: "mem t (regs t 0 + 12) = c"
    and area: "\<forall>x \<in> insert (regs t 0 + 12) (set (frame c 9)).
                 x \<noteq> regs t 1 + 12 \<and> x \<notin> set (frame (regs t SP - 36) 9)"
  shows "\<exists>t'. port_switch_v6m t = Jump t' \<and> regs t' SP = c + 36 \<and>
           regs t' 4 = mem t (c + 16) \<and> regs t' 5 = mem t (c + 20) \<and>
           regs t' PC = mem t (c + 32) \<and>
           trace t' = trace t \<and> basepri t' = basepri t \<and> primask t' = primask t"
proof -
  define t1 where "t1 = t\<lparr>mem := switch_mem_v6m t,
           regs := (regs t)(4 := regs t 8, 5 := regs t 9, 6 := regs t 10, 7 := regs t 11,
                            SP := regs t SP - 36, 3 := regs t SP - 36)\<rparr>"
  have t1: "mem t1 = switch_mem_v6m t" "regs t1 0 = regs t 0" "trace t1 = trace t"
    "basepri t1 = basepri t" "primask t1 = primask t"
    by (simp_all add: t1_def)
  have split: "port_switch_v6m =
      run ([push [4, 5, 6, 7, LR], mov 4 8, mov 5 9, mov 6 10, mov 7 11, push [4, 5, 6, 7],
            mov 3 SP, str 3 1 12] @
           [ldr 3 0 12, mov SP 3, pop [4, 5, 6, 7], mov 8 4, mov 9 5, mov 10 6, mov 11 7,
            pop [4, 5, 6, 7, PC]])"
    by (simp add: port_switch_v6m_def)
  from v6m_restore [of t1] obtain t' where r:
    "run [ldr 3 0 12, mov SP 3, pop [4, 5, 6, 7], mov 8 4, mov 9 5, mov 10 6, mov 11 7,
          pop [4, 5, 6, 7, PC]] t1 = Jump t'"
    "regs t' 4 = mem t1 (mem t1 (regs t1 0 + 12) + 16)"
    "regs t' 5 = mem t1 (mem t1 (regs t1 0 + 12) + 20)"
    "regs t' PC = mem t1 (mem t1 (regs t1 0 + 12) + 32)"
    "regs t' SP = mem t1 (regs t1 0 + 12) + 36"
    "trace t' = trace t1" "basepri t' = basepri t1" "primask t' = primask t1"
    by blast
  have sw: "port_switch_v6m t = Jump t'"
    unfolding split run_append v6m_save t1_def [symmetric] using r(1) by simp
  from area have "switch_mem_v6m t (regs t 0 + 12) = mem t (regs t 0 + 12)"
    by (intro switch_mem_v6m_outside) auto
  with ctx have c: "switch_mem_v6m t (regs t 0 + 12) = c" by simp
  have w: "switch_mem_v6m t (c + 4 * of_nat i) = mem t (c + 4 * of_nat i)" if "i < 9" for i
  proof -
    from that have "c + 4 * of_nat i \<in> set (frame c 9)" by (rule frame_member)
    with area show ?thesis by (intro switch_mem_v6m_outside) auto
  qed
  from w [of 4] w [of 5] w [of 8]
  have ws: "switch_mem_v6m t (c + 16) = mem t (c + 16)"
    "switch_mem_v6m t (c + 20) = mem t (c + 20)"
    "switch_mem_v6m t (c + 32) = mem t (c + 32)"
    by simp_all
  from sw r(2-) show ?thesis
    by (simp add: t1 c ws)
qed

subsection \<open>The start of a thread\<close>

text \<open>
  Claim C2. A thread is switched in whose saved context is the one the creation of a
  thread prepares: its function in the place of r4, its argument in the place of r5
  and \<^verbatim>\<open>_port_thread_start\<close> as the return address. The first conjunct is
  chcore_v7m.c, where these are the first, the second and the ninth word of the context;
  the second is chcoreasm_v6m.s, where r8 to r11 come first and they are the fifth, the
  sixth and the ninth word. In both the switch ends at \<^verbatim>\<open>_port_thread_start\<close>, which
  releases the lock and then calls the function with the argument: the call is in the
  trace with the lock released (PRIMASK clear in the v6-M port). When the function
  returns, \<^verbatim>\<open>chThdExit\<close> is called next, with the returned value.
\<close>

theorem thread_start_contract:
  "(mem t (regs t 0 + 12) = c \<longrightarrow> mem t c = pf \<longrightarrow> mem t (c + 4) = arg \<longrightarrow>
    mem t (c + 32) = port_thread_start_entry cfg \<longrightarrow>
    (\<forall>x \<in> insert (regs t 0 + 12) (set (frame c 9)).
        x \<noteq> regs t 1 + 12 \<and> x \<notin> set (frame (ctx_base cfg t) (ctx_words cfg))) \<longrightarrow>
    (\<exists>t' snap.
       port_switch cfg t = Jump t' \<and> regs t' PC = port_thread_start_entry cfg \<and>
       released cfg snap \<and>
       added t' (port_thread_start cfg ext t') =
         (if CH_DBG_SYSTEM_STATE_CHECK cfg
          then [(Dbg_check_unlock, basepri t, primask t)] else []) @
         [(ThreadFunction pf arg, snap)] @
         (case thread_code ext pf arg of None \<Rightarrow> [] | Some v \<Rightarrow> [(ThdExit v, snap)]))) \<and>
   (mem u (regs u 0 + 12) = d \<longrightarrow> mem u (d + 16) = pf \<longrightarrow> mem u (d + 20) = arg \<longrightarrow>
    mem u (d + 32) = port_thread_start_entry cfg \<longrightarrow>
    (\<forall>x \<in> insert (regs u 0 + 12) (set (frame d 9)).
        x \<noteq> regs u 1 + 12 \<and> x \<notin> set (frame (regs u SP - 36) 9)) \<longrightarrow>
    (\<exists>u'.
       port_switch_v6m u = Jump u' \<and> regs u' PC = port_thread_start_entry cfg \<and>
       added u' (port_thread_start_v6m cfg ext u') =
         (if CH_DBG_SYSTEM_STATE_CHECK cfg
          then [(Dbg_check_unlock, basepri u, primask u)] else []) @
         [(ThreadFunction pf arg, basepri u, False)] @
         (case thread_code ext pf arg of
            None \<Rightarrow> [] | Some v \<Rightarrow> [(ThdExit v, basepri u, False)])))"
proof (intro conjI impI)
  assume ctx: "mem t (regs t 0 + 12) = c"
    and r4: "mem t c = pf" and r5: "mem t (c + 4) = arg"
    and lr: "mem t (c + 32) = port_thread_start_entry cfg"
    and area: "\<forall>x \<in> insert (regs t 0 + 12) (set (frame c 9)).
                 x \<noteq> regs t 1 + 12 \<and> x \<notin> set (frame (ctx_base cfg t) (ctx_words cfg))"
  from port_switch_closed [of cfg t] obtain t' where sw: "port_switch cfg t = Jump t'" by blast
  have "regs t' 4 = mem t (c + 4 * of_nat 0)"
    using port_switch_in [OF ctx area, of 0] sw by auto
  with r4 have a: "regs t' 4 = pf" by simp
  have "regs t' 5 = mem t (c + 4 * of_nat 1)"
    using port_switch_in [OF ctx area, of 1] sw by auto
  with r5 have b: "regs t' 5 = arg" by simp
  have "regs t' PC = mem t (c + 4 * of_nat 8) \<and> basepri t' = basepri t \<and> primask t' = primask t"
    using port_switch_in [OF ctx area, of 8] sw by auto
  with lr have pc: "regs t' PC = port_thread_start_entry cfg"
    and m: "basepri t' = basepri t" "primask t' = primask t" by simp_all
  let ?snap = "(basepri (port_unlock_macro cfg t'), primask (port_unlock_macro cfg t'))"
  have rel: "released cfg ?snap" by (rule released_port_unlock_macro)
  have tr: "added t' (port_thread_start cfg ext t') =
             (if CH_DBG_SYSTEM_STATE_CHECK cfg
              then [(Dbg_check_unlock, basepri t, primask t)] else []) @
             [(ThreadFunction pf arg, ?snap)] @
             (case thread_code ext pf arg of None \<Rightarrow> [] | Some v \<Rightarrow> [(ThdExit v, ?snap)])"
    unfolding port_thread_start_added by (simp add: a b m)
  from sw pc rel tr
  show "\<exists>t' snap.
       port_switch cfg t = Jump t' \<and> regs t' PC = port_thread_start_entry cfg \<and>
       released cfg snap \<and>
       added t' (port_thread_start cfg ext t') =
         (if CH_DBG_SYSTEM_STATE_CHECK cfg
          then [(Dbg_check_unlock, basepri t, primask t)] else []) @
         [(ThreadFunction pf arg, snap)] @
         (case thread_code ext pf arg of None \<Rightarrow> [] | Some v \<Rightarrow> [(ThdExit v, snap)])"
    by blast
next
  assume ctx: "mem u (regs u 0 + 12) = d"
    and r4: "mem u (d + 16) = pf" and r5: "mem u (d + 20) = arg"
    and pc: "mem u (d + 32) = port_thread_start_entry cfg"
    and area: "\<forall>x \<in> insert (regs u 0 + 12) (set (frame d 9)).
                 x \<noteq> regs u 1 + 12 \<and> x \<notin> set (frame (regs u SP - 36) 9)"
  from port_switch_v6m_in [OF ctx area] obtain u' where sw: "port_switch_v6m u = Jump u'"
    and rs: "regs u' 4 = pf" "regs u' 5 = arg" "regs u' PC = port_thread_start_entry cfg"
    and m: "basepri u' = basepri u" "primask u' = primask u"
    using r4 r5 pc by auto
  have tr: "added u' (port_thread_start_v6m cfg ext u') =
         (if CH_DBG_SYSTEM_STATE_CHECK cfg
          then [(Dbg_check_unlock, basepri u, primask u)] else []) @
         [(ThreadFunction pf arg, basepri u, False)] @
         (case thread_code ext pf arg of
            None \<Rightarrow> [] | Some v \<Rightarrow> [(ThdExit v, basepri u, False)])"
    unfolding port_thread_start_v6m_added by (simp add: rs m split: option.split)
  from sw rs(3) tr
  show "\<exists>u'.
       port_switch_v6m u = Jump u' \<and> regs u' PC = port_thread_start_entry cfg \<and>
       added u' (port_thread_start_v6m cfg ext u') =
         (if CH_DBG_SYSTEM_STATE_CHECK cfg
          then [(Dbg_check_unlock, basepri u, primask u)] else []) @
         [(ThreadFunction pf arg, basepri u, False)] @
         (case thread_code ext pf arg of
            None \<Rightarrow> [] | Some v \<Rightarrow> [(ThdExit v, basepri u, False)])"
    by blast
qed


lemma frame_9:
  "frame a 9 = [a, a + 4, a + 8, a + 12, a + 16, a + 20, a + 24, a + 28, a + 32]"
proof -
  have "[0 ..< 9] = [0, 1, 2, 3, 4, 5, 6, 7, 8 :: nat]" by code_simp
  then show ?thesis by (simp add: frame_def)
qed

theorem thread_start_contract_witness:
  "(\<exists>t' snap.
     port_switch (ex_port False False) ex_new_thread = Jump t' \<and> regs t' PC = 0x08000500 \<and>
     released (ex_port False False) snap \<and>
     added t' (port_thread_start (ex_port False False) (ex_ext 0) t') =
       [(Dbg_check_unlock, 0x40, False), (ThreadFunction 0x08001000 7, snap), (ThdExit 8, snap)]) \<and>
   (\<exists>u'.
     port_switch_v6m ex_new_thread_v6m = Jump u' \<and> regs u' PC = 0x08000500 \<and>
     added u' (port_thread_start_v6m (ex_port False False) (ex_ext 0) u') =
       [(Dbg_check_unlock, 0, True), (ThreadFunction 0x08001000 7, 0, False),
        (ThdExit 8, 0, False)])"
proof -
  let ?t = ex_new_thread
  let ?u = ex_new_thread_v6m
  have ctx: "mem ?t (regs ?t 0 + 12) = 0x20002FDC"
    and r4: "mem ?t 0x20002FDC = 0x08001000" and r5: "mem ?t (0x20002FDC + 4) = 7"
    and lr: "mem ?t (0x20002FDC + 32) = port_thread_start_entry (ex_port False False)"
    by (simp_all add: ex_new_thread_def ex_cpu_def ex_port_def)
  have area: "\<forall>x \<in> insert (regs ?t 0 + 12) (set (frame 0x20002FDC 9)).
      x \<noteq> regs ?t 1 + 12 \<and>
      x \<notin> set (frame (ctx_base (ex_port False False) ?t) (ctx_words (ex_port False False)))"
    by (simp add: ex_new_thread_def ex_cpu_def ex_port_def frame_9 ctx_base_def ctx_words_def)
  have ctx6: "mem ?u (regs ?u 0 + 12) = 0x20002FDC"
    and r46: "mem ?u (0x20002FDC + 16) = 0x08001000" and r56: "mem ?u (0x20002FDC + 20) = 7"
    and pc6: "mem ?u (0x20002FDC + 32) = port_thread_start_entry (ex_port False False)"
    by (simp_all add: ex_new_thread_v6m_def ex_cpu_def ex_port_def)
  have area6: "\<forall>x \<in> insert (regs ?u 0 + 12) (set (frame 0x20002FDC 9)).
      x \<noteq> regs ?u 1 + 12 \<and> x \<notin> set (frame (regs ?u SP - 36) 9)"
    by (simp add: ex_new_thread_v6m_def ex_cpu_def frame_9)
  note th = thread_start_contract [where t = ?t and u = ?u and ext = "ex_ext 0"
      and cfg = "ex_port False False" and c = "0x20002FDC" and d = "0x20002FDC"
      and pf = "0x08001000" and arg = 7]
  from th [THEN conjunct1, THEN mp, THEN mp, THEN mp, THEN mp, THEN mp, OF ctx r4 r5 lr area]
  have A: "\<exists>t' snap.
     port_switch (ex_port False False) ex_new_thread = Jump t' \<and> regs t' PC = 0x08000500 \<and>
     released (ex_port False False) snap \<and>
     added t' (port_thread_start (ex_port False False) (ex_ext 0) t') =
       [(Dbg_check_unlock, 0x40, False), (ThreadFunction 0x08001000 7, snap), (ThdExit 8, snap)]"
    by (simp add: ex_new_thread_def ex_cpu_def ex_port_def ex_ext_def)
  from th [THEN conjunct2, THEN mp, THEN mp, THEN mp, THEN mp, THEN mp, OF ctx6 r46 r56 pc6 area6]
  have B: "\<exists>u'.
     port_switch_v6m ex_new_thread_v6m = Jump u' \<and> regs u' PC = 0x08000500 \<and>
     added u' (port_thread_start_v6m (ex_port False False) (ex_ext 0) u') =
       [(Dbg_check_unlock, 0, True), (ThreadFunction 0x08001000 7, 0, False),
        (ThdExit 8, 0, False)]"
    by (simp add: ex_new_thread_v6m_def ex_cpu_def ex_port_def ex_ext_def)
  from A B show ?thesis by blast
qed

theorem irq_epilogue_keeps_lock_witness:
  "locked (ex_port False False) (port_irq_epilogue (ex_port False False) ex_isr) \<and>
   regs (exception_return (port_irq_epilogue (ex_port False False) ex_isr)) PC = 0x08000400 \<and>
   added ex_isr (port_switch_from_isr (ex_port False False) (ex_ext 1)
      (exception_return (port_irq_epilogue (ex_port False False) ex_isr))) =
     [(Dbg_check_lock, 0x40, False), (SchIsPreemptionRequired, 0x40, False),
      (SchDoReschedule, 0x40, False), (Dbg_check_unlock, 0x40, False), (SVCall, 0x40, False)] \<and>
   unlocked (ex_port False False) (port_switch_from_isr (ex_port False False) (ex_ext 1)
      (exception_return (port_irq_epilogue (ex_port False False) ex_isr)))"
proof -
  have icsr: "(scb_icsr ex_isr AND ICSR_RETTOBASE (ex_port False False)) \<noteq> 0"
    by (simp add: ex_isr_def ex_cpu_def ex_port_def)
  have bp: "basepri (port_irq_epilogue (ex_port False False) ex_isr) = 0x40"
    "primask (port_irq_epilogue (ex_port False False) ex_isr) = False"
    using icsr
    by (simp_all add: port_irq_epilogue_def Let_def port_lock_from_isr_def port_lock_macro_def
        port_lock_def ex_isr_def ex_cpu_def ex_port_def)
  from irq_epilogue_keeps_lock [of ex_isr "ex_port False False" "ex_ext 1", unfolded if_P [OF icsr]]
  have "locked (ex_port False False) (port_irq_epilogue (ex_port False False) ex_isr) \<and>
   regs (exception_return (port_irq_epilogue (ex_port False False) ex_isr)) PC =
     port_switch_from_isr_entry (ex_port False False) \<and>
   added ex_isr (port_switch_from_isr (ex_port False False) (ex_ext 1)
      (exception_return (port_irq_epilogue (ex_port False False) ex_isr))) =
     map (\<lambda>e. (e, basepri (port_irq_epilogue (ex_port False False) ex_isr),
                  primask (port_irq_epilogue (ex_port False False) ex_isr)))
       ((if CH_DBG_SYSTEM_STATE_CHECK (ex_port False False) then [Dbg_check_lock] else []) @
        [SchIsPreemptionRequired] @
        (if chSchIsPreemptionRequired (ex_ext 1)
              (mem (port_irq_epilogue (ex_port False False) ex_isr)) \<noteq> 0
         then [SchDoReschedule] else []) @
        (if CH_DBG_SYSTEM_STATE_CHECK (ex_port False False) then [Dbg_check_unlock] else []) @
        (if CORTEX_SIMPLIFIED_PRIORITY (ex_port False False) then [] else [SVCall])) @
     (if CORTEX_SIMPLIFIED_PRIORITY (ex_port False False)
      then [(PendSV, basepri (port_irq_epilogue (ex_port False False) ex_isr), False)] else []) \<and>
   unlocked (ex_port False False) (port_switch_from_isr (ex_port False False) (ex_ext 1)
      (exception_return (port_irq_epilogue (ex_port False False) ex_isr)))"
    by blast
  then show ?thesis
    unfolding bp by (simp add: ex_port_def ex_ext_def)
qed

theorem reschedule_iff_preemption_required_witness:
  "SchDoReschedule \<notin> fst ` set (added ex_isr (port_switch_from_isr (ex_port False False) (ex_ext 0) ex_isr)) \<and>
   SchDoReschedule \<in> fst ` set (added ex_isr (port_switch_from_isr (ex_port False False) (ex_ext 1) ex_isr)) \<and>
   SchDoReschedule \<notin> fst ` set (added ex_isr (port_switch_from_isr_v6m (ex_port False False) (ex_ext 0) ex_isr)) \<and>
   regs (port_switch_from_isr (ex_port False False) (ex_ext 0) ex_isr) PC = 0x08000777 \<and>
   regs (port_switch_from_isr (ex_port False False) (ex_ext 0) ex_isr) SP = 0x20001020"
proof -
  have sz: "EXTCTX_SIZE (ex_port False False) = 32" by (simp add: ex_port_def)
  from reschedule_iff_preemption_required [OF sz, of ex_isr "ex_ext 0"]
    reschedule_iff_preemption_required [OF sz, of ex_isr "ex_ext 1"]
  show ?thesis
    by (simp add: ex_ext_def ex_port_def ex_isr_def ex_cpu_def)
qed

section \<open>The system tick and the timer callbacks\<close>


lemma tmrfunc_unlocked: "\<not> lock (tmrfunc cfg ins s)"
  by (simp add: tmrfunc_def Let_def chSysUnlockFromIsr_def)







section \<open>The I2C bus guard\<close>

lemma bus_init_sim:
  assumes "I2C_USE_MUTUAL_EXCLUSION cs" "\<not> CH_USE_MUTEXES cs"
    "I2C_USE_MUTUAL_EXCLUSION cm" "CH_USE_MUTEXES cm"
  shows "bus_sim (bus_init cs d) (bus_init cm d')"
  using assms
  by (simp add: bus_sim_def sem_inv_def mtx_inv_def bus_init_def i2cObjectInit_def
      chSemInit_def chMtxInit_def Let_def)

lemma bus_step_sim:
  assumes cs: "\<not> CH_USE_MUTEXES cs" "CH_USE_SEMAPHORES cs" and cm: "CH_USE_MUTEXES cm"
    and sim: "bus_sim bs bm"
  shows "(bus_step cs p c bs = None \<and> bus_step cm p c bm = None) \<or>
         (\<exists>bs' bm'. bus_step cs p c bs = Some bs' \<and> bus_step cm p c bm = Some bm' \<and>
            bus_sim bs' bm')"
proof (cases c)
  case (Acquire t)
  show ?thesis
    using sim cs cm
    by (auto simp: Acquire bus_sim_def sem_inv_def mtx_inv_def waiters_def i2cAcquireBus_def
        chSemWait_def chMtxLock_def Let_def split: if_splits)
next
  case (Release t)
  show ?thesis
    using sim cs cm
    by (auto simp: Release bus_sim_def sem_inv_def mtx_inv_def waiters_def i2cReleaseBus_def
        chSemSignal_def chMtxUnlock_def Let_def split: list.splits if_splits)
qed

lemma bus_run_sim:
  assumes cs: "\<not> CH_USE_MUTEXES cs" "CH_USE_SEMAPHORES cs" and cm: "CH_USE_MUTEXES cm"
  shows "bus_sim bs bm \<Longrightarrow>
         (bus_run cs p cl bs = None \<and> bus_run cm p cl bm = None) \<or>
         (\<exists>bs' bm'. bus_run cs p cl bs = Some bs' \<and> bus_run cm p cl bm = Some bm' \<and>
            bus_sim bs' bm')"
proof (induction cl arbitrary: bs bm)
  case Nil
  then show ?case by simp
next
  case (Cons c cl)
  show ?case
    using bus_step_sim [OF cs cm Cons.prems, of p c] Cons.IH by fastforce
qed

lemma bus_sim_owners: "bus_sim bs bm \<Longrightarrow> length (owners bs) \<le> 1"
  by (auto simp: bus_sim_def sem_inv_def)

lemma bus_sim_waiters:
  "bus_sim bs bm \<Longrightarrow> \<not> CH_USE_MUTEXES cs \<Longrightarrow> CH_USE_MUTEXES cm \<Longrightarrow>
   (owners bs, waiters cs (drv bs)) = (owners bm, waiters cm (drv bm))"
  by (simp add: bus_sim_def waiters_def)

text \<open>
  The guard without owner tracking: in the build with the semaphore a release by a
  thread that does not own the bus is accepted and gives the unit of the count back; in
  the build with the mutex it is refused.
\<close>

lemma release_by_another_thread:
  "i2cReleaseBus ex_i2c 2 (snd (i2cAcquireBus ex_i2c (\<lambda>t. t) 1 (i2cObjectInit ex_i2c ex_drv))) =
     Inr (None, i2cObjectInit ex_i2c ex_drv) \<and>
   i2cReleaseBus (ex_i2c\<lparr>CH_USE_MUTEXES := True\<rparr>) 2
     (snd (i2cAcquireBus (ex_i2c\<lparr>CH_USE_MUTEXES := True\<rparr>) (\<lambda>t. t) 1
        (i2cObjectInit (ex_i2c\<lparr>CH_USE_MUTEXES := True\<rparr>) ex_drv))) =
     Inl (DbgPanic ''chMtxUnlock'')"
  by (simp add: ex_i2c_def ex_drv_def i2cObjectInit_def i2cAcquireBus_def i2cReleaseBus_def
      chSemInit_def chSemWait_def chSemSignal_def chMtxInit_def chMtxLock_def
      chMtxUnlock_def Let_def)

text \<open>
  Claim C8. In a build with mutual exclusion, without mutexes and with semaphores,
  \<^verbatim>\<open>i2cObjectInit\<close> initializes the semaphore of the driver with count 1,
  \<^verbatim>\<open>i2cAcquireBus\<close> is a wait on it and \<^verbatim>\<open>i2cReleaseBus\<close> a signal. In every run of
  calls of the threads at most one thread owns the bus, and the owners and the waiting
  threads are those of the run of the same calls in the build with the mutex. The
  semaphore keeps no owner: a release does the same whichever thread calls it, and an
  acquisition that does not block leaves the same driver whichever thread made it.
\<close>

theorem i2c_bus_guard_semaphore:
  assumes "I2C_USE_MUTUAL_EXCLUSION cfg" "\<not> CH_USE_MUTEXES cfg" "CH_USE_SEMAPHORES cfg"
  shows "id_semaphore (i2cObjectInit cfg d) = \<lparr>s_cnt = 1, s_queue = []\<rparr> \<and>
    i2cAcquireBus cfg p t i2cp =
      (fst (chSemWait p t (id_semaphore i2cp)),
       i2cp\<lparr>id_semaphore := snd (chSemWait p t (id_semaphore i2cp))\<rparr>) \<and>
    i2cReleaseBus cfg t i2cp =
      Inr (fst (chSemSignal (id_semaphore i2cp)),
           i2cp\<lparr>id_semaphore := snd (chSemSignal (id_semaphore i2cp))\<rparr>) \<and>
    (\<forall>b. bus_run cfg p cl (bus_init cfg d) = Some b \<longrightarrow> length (owners b) \<le> 1) \<and>
    map_option (\<lambda>b. (owners b, waiters cfg (drv b))) (bus_run cfg p cl (bus_init cfg d)) =
      map_option (\<lambda>b. (owners b, waiters (cfg\<lparr>CH_USE_MUTEXES := True\<rparr>) (drv b)))
        (bus_run (cfg\<lparr>CH_USE_MUTEXES := True\<rparr>) p cl
           (bus_init (cfg\<lparr>CH_USE_MUTEXES := True\<rparr>) d)) \<and>
    i2cReleaseBus cfg t i2cp = i2cReleaseBus cfg t' i2cp \<and>
    (0 < s_cnt (id_semaphore i2cp) \<longrightarrow>
       snd (i2cAcquireBus cfg p t i2cp) = snd (i2cAcquireBus cfg p t' i2cp))"
proof -
  define cm where "cm = cfg\<lparr>CH_USE_MUTEXES := True\<rparr>"
  have cm: "I2C_USE_MUTUAL_EXCLUSION cm" "CH_USE_MUTEXES cm"
    using assms by (simp_all add: cm_def)
  have init: "bus_sim (bus_init cfg d) (bus_init cm d)"
    by (rule bus_init_sim [OF assms(1,2) cm])
  note run = bus_run_sim [OF assms(2,3) cm(2) init, of p cl]
  have a: "id_semaphore (i2cObjectInit cfg d) = \<lparr>s_cnt = 1, s_queue = []\<rparr>"
    using assms by (simp add: i2cObjectInit_def chSemInit_def Let_def)
  have b: "i2cAcquireBus cfg p t i2cp =
      (fst (chSemWait p t (id_semaphore i2cp)),
       i2cp\<lparr>id_semaphore := snd (chSemWait p t (id_semaphore i2cp))\<rparr>)" for t
    using assms by (simp add: i2cAcquireBus_def Let_def)
  have c: "i2cReleaseBus cfg t i2cp =
      Inr (fst (chSemSignal (id_semaphore i2cp)),
           i2cp\<lparr>id_semaphore := snd (chSemSignal (id_semaphore i2cp))\<rparr>)" for t
    using assms by (simp add: i2cReleaseBus_def Let_def)
  have e: "\<forall>b. bus_run cfg p cl (bus_init cfg d) = Some b \<longrightarrow> length (owners b) \<le> 1"
    using run bus_sim_owners by auto
  have f: "map_option (\<lambda>b. (owners b, waiters cfg (drv b))) (bus_run cfg p cl (bus_init cfg d)) =
      map_option (\<lambda>b. (owners b, waiters cm (drv b))) (bus_run cm p cl (bus_init cm d))"
    using run bus_sim_waiters [OF _ assms(2) cm(2)] by auto
  have g: "0 < s_cnt (id_semaphore i2cp) \<longrightarrow>
       snd (i2cAcquireBus cfg p t i2cp) = snd (i2cAcquireBus cfg p t' i2cp)"
    by (simp add: b chSemWait_def)
  show ?thesis
    using a b [of t] c [of t] c [of t'] e f [unfolded cm_def] g by simp
qed

theorem i2c_bus_guard_semaphore_witness:
  "map_option (\<lambda>b. (owners b, waiters ex_i2c (drv b)))
     (bus_run ex_i2c (\<lambda>t. t) ex_calls (bus_init ex_i2c ex_drv)) = Some ([2], [1]) \<and>
   map_option (\<lambda>b. (owners b, waiters (ex_i2c\<lparr>CH_USE_MUTEXES := True\<rparr>) (drv b)))
     (bus_run (ex_i2c\<lparr>CH_USE_MUTEXES := True\<rparr>) (\<lambda>t. t) ex_calls
        (bus_init (ex_i2c\<lparr>CH_USE_MUTEXES := True\<rparr>) ex_drv)) = Some ([2], [1]) \<and>
   id_semaphore (i2cObjectInit ex_i2c ex_drv) = \<lparr>s_cnt = 1, s_queue = []\<rparr>"
  using i2c_bus_guard_semaphore [of ex_i2c ex_drv "\<lambda>t. t" 1 ex_drv ex_calls 2]
  by (simp add: ex_i2c_def ex_drv_def ex_calls_def bus_init_def i2cObjectInit_def
      i2cAcquireBus_def i2cReleaseBus_def chSemInit_def chSemWait_def chSemSignal_def
      chMtxInit_def chMtxLock_def chMtxUnlock_def waiters_def Let_def)

end
